theory Spec2Isabelle
  imports Complex_Main
begin

section \<open>Python values and the object store\<close>

text \<open>
  The editor keeps one JSON document in memory as nested Python \<open>dict\<close> and \<open>list\<close>
  objects and mutates them in place; several views hold references to the same
  objects. Objects therefore live in a store, addressed by their index, and a value is
  either an immutable scalar or a reference into the store.

  A \<open>dict\<close> is an association list with distinct keys in insertion order; a Python
  \<open>float\<close> is idealised as a real number (finite values only).
\<close>

type_synonym addr = nat

datatype pyval =
    PNone
  | PBool bool
  | PInt int
  | PFloat real
  | PStr string
  | PRef addr

datatype pyobj =
    PDict "(string \<times> pyval) list"
  | PList "pyval list"

type_synonym heap = "pyobj list"

text \<open>The exceptions the modelled code can raise.\<close>

datatype pyerr =
    KeyError string
  | TypeError
  | AttributeError
  | JSONDecodeError
  | OSError
  | RecursionError
  | OverflowError
  | SerializeError

text \<open>
  The specification's \<open>PathError\<close> is what a failed path resolution raises in the
  code: \<open>KeyError\<close> for a missing key, \<open>TypeError\<close> for subscripting a value that
  is not a \<open>dict\<close>.
\<close>

fun is_PathError :: "pyerr \<Rightarrow> bool" where
  "is_PathError (KeyError k) = True"
| "is_PathError TypeError = True"
| "is_PathError e = False"

text \<open>
  The object a value refers to. An address outside the store denotes no object (Python
  cannot produce one); such a value behaves like a scalar.
\<close>

definition obj_at :: "heap \<Rightarrow> pyval \<Rightarrow> pyobj option" where
  "obj_at h v = (case v of PRef a \<Rightarrow> (if a < length h then Some (h ! a) else None) | _ \<Rightarrow> None)"

definition is_dict :: "heap \<Rightarrow> pyval \<Rightarrow> bool" where
  "is_dict h v = (case obj_at h v of Some (PDict kvs) \<Rightarrow> True | _ \<Rightarrow> False)"

definition is_list :: "heap \<Rightarrow> pyval \<Rightarrow> bool" where
  "is_list h v = (case obj_at h v of Some (PList xs) \<Rightarrow> True | _ \<Rightarrow> False)"

text \<open>Python truthiness, as used by \<open>if not x\<close> and \<open>if x\<close>.\<close>

definition truthy :: "heap \<Rightarrow> pyval \<Rightarrow> bool" where
  "truthy h v =
     (case v of
        PNone \<Rightarrow> False
      | PBool b \<Rightarrow> b
      | PInt i \<Rightarrow> i \<noteq> 0
      | PFloat r \<Rightarrow> r \<noteq> 0
      | PStr s \<Rightarrow> s \<noteq> []
      | PRef a \<Rightarrow>
          (case obj_at h v of
             Some (PDict kvs) \<Rightarrow> kvs \<noteq> []
           | Some (PList xs) \<Rightarrow> xs \<noteq> []
           | None \<Rightarrow> True))"

text \<open>
  \<open>d[k] = v\<close> on the entries of a \<open>dict\<close>: an existing key keeps its place, a new key
  goes to the end.
\<close>

fun dict_set :: "string \<Rightarrow> pyval \<Rightarrow> (string \<times> pyval) list \<Rightarrow> (string \<times> pyval) list" where
  "dict_set k v [] = [(k, v)]"
| "dict_set k v ((k', v') # kvs) =
     (if k' = k then (k, v) # kvs else (k', v') # dict_set k v kvs)"

text \<open>\<open>d[k]\<close> with a string key \<open>k\<close>.\<close>

definition getitem :: "heap \<Rightarrow> pyval \<Rightarrow> string \<Rightarrow> pyerr + pyval" where
  "getitem h d k =
     (case obj_at h d of
        Some (PDict kvs) \<Rightarrow>
          (case map_of kvs k of None \<Rightarrow> Inl (KeyError k) | Some v \<Rightarrow> Inr v)
      | _ \<Rightarrow> Inl TypeError)"

text \<open>\<open>d[k] = v\<close> with a string key \<open>k\<close>: the object \<open>d\<close> refers to is replaced in the store.\<close>

definition setitem :: "heap \<Rightarrow> pyval \<Rightarrow> string \<Rightarrow> pyval \<Rightarrow> pyerr + heap" where
  "setitem h d k v =
     (case d of
        PRef a \<Rightarrow>
          (case obj_at h d of
             Some (PDict kvs) \<Rightarrow> Inr (h[a := PDict (dict_set k v kvs)])
           | _ \<Rightarrow> Inl TypeError)
      | _ \<Rightarrow> Inl TypeError)"

text \<open>\<open>d.get(k)\<close>: \<open>None\<close> stands for "use the default"; only a \<open>dict\<close> has \<open>get\<close>.\<close>

definition dict_get :: "heap \<Rightarrow> pyval \<Rightarrow> string \<Rightarrow> pyerr + pyval option" where
  "dict_get h d k =
     (case obj_at h d of
        Some (PDict kvs) \<Rightarrow> Inr (map_of kvs k)
      | _ \<Rightarrow> Inl AttributeError)"

text \<open>Allocation of a new object: it gets the next address.\<close>

definition alloc :: "heap \<Rightarrow> pyobj \<Rightarrow> pyval \<times> heap" where
  "alloc h ob = (PRef (length h), h @ [ob])"

section \<open>The field-path resolver: \<open>PropertyEditor.update_field\<close>\<close>

text \<open>\<open>field_path.split('.')\<close>: never empty; an empty path gives one empty segment.\<close>

fun split_dot :: "string \<Rightarrow> string list" where
  "split_dot [] = [Nil]"
| "split_dot (c # cs) =
     (if c = CHR ''.'' then [] # split_dot cs
      else (case split_dot cs of
              w # ws \<Rightarrow> (c # w) # ws
            | [] \<Rightarrow> [c # Nil]))"

text \<open>The loop \<open>for key in keys[:-1]: data = data[key]\<close>.\<close>

fun walk :: "heap \<Rightarrow> pyval \<Rightarrow> string list \<Rightarrow> pyerr + pyval" where
  "walk h d [] = Inr d"
| "walk h d (k # ks) =
     (case getitem h d k of Inl e \<Rightarrow> Inl e | Inr d' \<Rightarrow> walk h d' ks)"

text \<open>
  \<open>update_field\<close> on the selected object \<open>cur\<close> (\<open>self.current_data\<close>). The result is
  the exception raised, or the new store together with whether \<open>property_changed\<close>
  was emitted. The guard \<open>if not self.current_data: return\<close> comes first.
\<close>

definition update_field :: "heap \<Rightarrow> pyval \<Rightarrow> string \<Rightarrow> pyval \<Rightarrow> pyerr + (heap \<times> bool)" where
  "update_field h cur field_path v =
     (if \<not> truthy h cur then Inr (h, False)
      else
        let keys = split_dot field_path in
        (case walk h cur (butlast keys) of
           Inl e \<Rightarrow> Inl e
         | Inr d \<Rightarrow>
             (case setitem h d (last keys) v of
                Inl e \<Rightarrow> Inl e
              | Inr h' \<Rightarrow> Inr (h', True))))"

text \<open>The objects at which the path walk performs a lookup, in order.\<close>

fun visited :: "heap \<Rightarrow> pyval \<Rightarrow> string list \<Rightarrow> pyval list" where
  "visited h d [] = []"
| "visited h d (k # ks) =
     d # (case getitem h d k of Inl e \<Rightarrow> [] | Inr d' \<Rightarrow> visited h d' ks)"

section \<open>The canvas: \<open>DraggableWidget\<close> and \<open>CanvasView\<close>\<close>

text \<open>Python's \<open>sub in s\<close> on two strings: \<open>sub\<close> occurs in \<open>s\<close> as a contiguous run.\<close>

fun starts_with :: "string \<Rightarrow> string \<Rightarrow> bool" where
  "starts_with s [] = True"
| "starts_with [] (c # cs) = False"
| "starts_with (a # s) (c # cs) = (a = c \<and> starts_with s cs)"

fun contains_str :: "string \<Rightarrow> string \<Rightarrow> bool" where
  "contains_str [] sub = (sub = [])"
| "contains_str (a # s) sub = (starts_with (a # s) sub \<or> contains_str s sub)"

text \<open>
  \<open>k in c\<close> for a string \<open>k\<close>: key membership in a \<open>dict\<close>, element membership in a
  \<open>list\<close>, substring in a \<open>str\<close>; other values are not iterable.
\<close>

definition py_contains :: "heap \<Rightarrow> pyval \<Rightarrow> string \<Rightarrow> pyerr + bool" where
  "py_contains h c k =
     (case c of
        PStr s \<Rightarrow> Inr (contains_str s k)
      | PRef a \<Rightarrow>
          (case obj_at h c of
             Some (PDict kvs) \<Rightarrow> Inr (map_of kvs k \<noteq> None)
           | Some (PList xs) \<Rightarrow> Inr (PStr k \<in> set xs)
           | None \<Rightarrow> Inl TypeError)
      | _ \<Rightarrow> Inl TypeError)"

datatype item_change = ItemPositionChange | OtherChange

text \<open>
  The block of \<open>itemChange\<close> that creates the missing objects:
  \<^verbatim>\<open>
  if 'position' not in self.widget_data.get('props', {}):
      if 'props' not in self.widget_data:
          self.widget_data['props'] = {}
      self.widget_data['props']['position'] = {}
  \<close>
  The default \<open>{}\<close> of \<open>get\<close> contains no key.
\<close>

definition ensure_position :: "heap \<Rightarrow> pyval \<Rightarrow> pyerr + heap" where
  "ensure_position h wd =
     (case dict_get h wd ''props'' of
        Inl e \<Rightarrow> Inl e
      | Inr props \<Rightarrow>
          (case (case props of None \<Rightarrow> Inr False | Some p \<Rightarrow> py_contains h p ''position'') of
             Inl e \<Rightarrow> Inl e
           | Inr True \<Rightarrow> Inr h
           | Inr False \<Rightarrow>
               (case py_contains h wd ''props'' of
                  Inl e \<Rightarrow> Inl e
                | Inr has_props \<Rightarrow>
                    (case (if has_props then Inr h
                           else (case alloc h (PDict []) of (d, h1) \<Rightarrow> setitem h1 wd ''props'' d)) of
                       Inl e \<Rightarrow> Inl e
                     | Inr h2 \<Rightarrow>
                         (case alloc h2 (PDict []) of
                            (d, h3) \<Rightarrow>
                              (case getitem h3 wd ''props'' of
                                 Inl e \<Rightarrow> Inl e
                               | Inr p \<Rightarrow> setitem h3 p ''position'' d))))))"

text \<open>\<open>self.widget_data['props']['position'][axis] = c\<close>, where \<open>c\<close> is a \<open>float\<close>.\<close>

definition set_coord :: "heap \<Rightarrow> pyval \<Rightarrow> string \<Rightarrow> real \<Rightarrow> pyerr + heap" where
  "set_coord h wd axis c =
     (case getitem h wd ''props'' of
        Inl e \<Rightarrow> Inl e
      | Inr p \<Rightarrow>
          (case getitem h p ''position'' of
             Inl e \<Rightarrow> Inl e
           | Inr pos \<Rightarrow> setitem h pos axis (PFloat c)))"

text \<open>
  \<open>DraggableWidget.itemChange\<close> for the item bound to the element \<open>wd\<close>
  (\<open>self.widget_data\<close>); \<open>new_pos\<close> is the proposed position. The base class's
  \<open>itemChange\<close> returns the value unchanged and has no effect on the document.
\<close>

definition itemChange :: "heap \<Rightarrow> pyval \<Rightarrow> item_change \<Rightarrow> real \<times> real \<Rightarrow> pyerr + heap" where
  "itemChange h wd change new_pos =
     (if change = ItemPositionChange then
        (case ensure_position h wd of
           Inl e \<Rightarrow> Inl e
         | Inr h1 \<Rightarrow>
             (case set_coord h1 wd ''x'' (fst new_pos) of
                Inl e \<Rightarrow> Inl e
              | Inr h2 \<Rightarrow> set_coord h2 wd ''y'' (snd new_pos)))
      else Inr h)"

text \<open>A shape on the canvas: the element it is bound to, its position and its size.\<close>

record widget_item =
  widget_data :: pyval
  pos_x :: real
  pos_y :: real
  width :: real
  height :: real

text \<open>
  A Python number passed where Qt expects a coordinate; anything else is refused with
  \<open>TypeError\<close>. \<open>bool\<close> is a subclass of \<open>int\<close>.
\<close>

definition to_qreal :: "pyval \<Rightarrow> pyerr + real" where
  "to_qreal v =
     (case v of
        PInt i \<Rightarrow> Inr (of_int i)
      | PFloat r \<Rightarrow> Inr r
      | PBool b \<Rightarrow> Inr (if b then 1 else 0)
      | _ \<Rightarrow> Inl TypeError)"

text \<open>
  \<open>DraggableWidget.__init__\<close>: the rectangle \<open>(0, 0, width, height)\<close>, the label (read
  from the element with \<open>get\<close>; its text is presentation only), then \<open>setPos(x, y)\<close>.
  The item has \<open>ItemSendsGeometryChanges\<close> set by then, so Qt reports a position that
  differs from the current one, \<open>(0, 0)\<close>, to \<open>itemChange\<close>.
\<close>

definition new_DraggableWidget ::
  "heap \<Rightarrow> pyval \<Rightarrow> pyval \<Rightarrow> pyval \<Rightarrow> pyval \<Rightarrow> pyval \<Rightarrow> pyerr + (widget_item \<times> heap)" where
  "new_DraggableWidget h wd x y w ht =
     (case to_qreal w of Inl e \<Rightarrow> Inl e | Inr rw \<Rightarrow>
      case to_qreal ht of Inl e \<Rightarrow> Inl e | Inr rh \<Rightarrow>
      case dict_get h wd ''id'' of Inl e \<Rightarrow> Inl e | Inr _ \<Rightarrow>
      case to_qreal x of Inl e \<Rightarrow> Inl e | Inr rx \<Rightarrow>
      case to_qreal y of Inl e \<Rightarrow> Inl e | Inr ry \<Rightarrow>
      case (if (rx, ry) = (0, 0) then Inr h else itemChange h wd ItemPositionChange (rx, ry)) of
        Inl e \<Rightarrow> Inl e
      | Inr h' \<Rightarrow>
          Inr (\<lparr>widget_data = wd, pos_x = rx, pos_y = ry, width = rw, height = rh\<rparr>, h'))"

text \<open>
  \<open>CanvasView.add_widget\<close>; \<open>items\<close> is \<open>self.widgets_items\<close>. The defaults
  \<open>{}\<close> of the first two \<open>get\<close> calls are empty dictionaries, on which every further
  \<open>get\<close> gives its own default.
\<close>

definition get_or_empty :: "heap \<Rightarrow> pyval option \<Rightarrow> string \<Rightarrow> pyerr + pyval option" where
  "get_or_empty h d k = (case d of None \<Rightarrow> Inr None | Some d' \<Rightarrow> dict_get h d' k)"

definition or_default :: "pyval option \<Rightarrow> pyval \<Rightarrow> pyval" where
  "or_default v dflt = (case v of None \<Rightarrow> dflt | Some v' \<Rightarrow> v')"

definition add_widget ::
  "heap \<Rightarrow> widget_item list \<Rightarrow> pyval \<Rightarrow> pyerr + (widget_item list \<times> heap)" where
  "add_widget h items wd =
     (case dict_get h wd ''props'' of Inl e \<Rightarrow> Inl e | Inr props \<Rightarrow>
      case get_or_empty h props ''position'' of Inl e \<Rightarrow> Inl e | Inr position \<Rightarrow>
      case get_or_empty h position ''x'' of Inl e \<Rightarrow> Inl e | Inr x \<Rightarrow>
      case get_or_empty h position ''y'' of Inl e \<Rightarrow> Inl e | Inr y \<Rightarrow>
      case get_or_empty h position ''width'' of Inl e \<Rightarrow> Inl e | Inr w \<Rightarrow>
      case get_or_empty h position ''height'' of Inl e \<Rightarrow> Inl e | Inr ht \<Rightarrow>
      case new_DraggableWidget h wd
             (or_default x (PInt (50 + int (length items) * 20)))
             (or_default y (PInt (50 + int (length items) * 20)))
             (or_default w (PInt 150))
             (or_default ht (PInt 100)) of
        Inl e \<Rightarrow> Inl e
      | Inr (item, h') \<Rightarrow> Inr (items @ [item], h'))"

text \<open>
  What a \<open>for\<close> loop iterates over: the elements of a \<open>list\<close>, the keys of a
  \<open>dict\<close>, the characters of a \<open>str\<close>; other values are not iterable.
\<close>

definition py_iter :: "heap \<Rightarrow> pyval \<Rightarrow> pyerr + pyval list" where
  "py_iter h c =
     (case c of
        PStr s \<Rightarrow> Inr (map (\<lambda>ch. PStr [ch]) s)
      | PRef a \<Rightarrow>
          (case obj_at h c of
             Some (PDict kvs) \<Rightarrow> Inr (map (\<lambda>kv. PStr (fst kv)) kvs)
           | Some (PList xs) \<Rightarrow> Inr xs
           | None \<Rightarrow> Inl TypeError)
      | _ \<Rightarrow> Inl TypeError)"

text \<open>
  A loop \<open>for elem in elems: self.canvas.add_widget(elem)\<close>. An exception leaves the
  loop with the shapes added and the store as changed so far.
\<close>

fun add_widgets ::
  "heap \<Rightarrow> widget_item list \<Rightarrow> pyval list \<Rightarrow> (widget_item list \<times> heap) \<times> pyerr option" where
  "add_widgets h items [] = ((items, h), None)"
| "add_widgets h items (e # es) =
     (case add_widget h items e of
        Inl err \<Rightarrow> ((items, h), Some err)
      | Inr (items', h') \<Rightarrow> add_widgets h' items' es)"

text \<open>
  \<open>MobileUIEditor.load_canvas\<close> after \<open>clear_widgets\<close> has emptied the canvas: the
  shapes of \<open>moduleElements\<close>, then those of \<open>enhancedData\<close>. \<open>jd\<close> is
  \<open>self.json_data\<close>; \<open>elements_of\<close> is what \<open>for elem in jd.get(k, [])\<close>
  iterates over.
\<close>

definition elements_of :: "heap \<Rightarrow> pyval \<Rightarrow> string \<Rightarrow> pyerr + pyval list" where
  "elements_of h jd k =
     (case dict_get h jd k of
        Inl e \<Rightarrow> Inl e
      | Inr None \<Rightarrow> Inr []
      | Inr (Some c) \<Rightarrow> py_iter h c)"

definition load_canvas :: "heap \<Rightarrow> pyval \<Rightarrow> (widget_item list \<times> heap) \<times> pyerr option" where
  "load_canvas h jd =
     (if \<not> truthy h jd then (([], h), None)
      else
        (case elements_of h jd ''moduleElements'' of
           Inl e \<Rightarrow> (([], h), Some e)
         | Inr mlist \<Rightarrow>
             (case add_widgets h [] mlist of
                (r, Some e) \<Rightarrow> (r, Some e)
              | ((items, h1), None) \<Rightarrow>
                  (case elements_of h1 jd ''enhancedData'' of
                     Inl e \<Rightarrow> ((items, h1), Some e)
                   | Inr elist \<Rightarrow> add_widgets h1 items elist))))"

section \<open>The JSON library\<close>

text \<open>
  A parsed JSON text: the syntax tree of the text, members in the order they are written.
  The editor uses Python's \<open>json\<close> module for parsing and printing; the module is a
  parameter of the model.
\<close>

datatype json =
    JNull
  | JBool bool
  | JInt int
  | JFloat real
  | JStr string
  | JArr "json list"
  | JObj "(string \<times> json) list"

text \<open>
  \<^item> \<open>loads\<close>: \<open>json.loads\<close> / \<open>json.load\<close>, the syntax tree or the exception raised
    (\<open>JSONDecodeError\<close> for a text that is not JSON);
  \<^item> \<open>dumps\<close>: \<open>json.dumps(obj, indent=2)\<close>;
  \<^item> \<open>dump_file\<close>: \<open>json.dump(obj, f, indent=2, ensure_ascii=False)\<close>, the text that
    reaches the file and the exception that interrupted the writing, if any.
\<close>

record jsonlib =
  loads :: "string \<Rightarrow> pyerr + json"
  dumps :: "heap \<Rightarrow> pyval \<Rightarrow> pyerr + string"
  dump_file :: "heap \<Rightarrow> pyval \<Rightarrow> string \<times> pyerr option"

text \<open>
  The objects the parser builds for a syntax tree: a new \<open>list\<close> for every array and a
  new \<open>dict\<close> for every object, filled member by member (a repeated key keeps its
  first place and its last value).
\<close>

definition dict_of_members :: "(string \<times> pyval) list \<Rightarrow> (string \<times> pyval) list" where
  "dict_of_members kvs = fold (\<lambda>kv d. dict_set (fst kv) (snd kv) d) kvs []"

fun build :: "json \<Rightarrow> heap \<Rightarrow> pyval \<times> heap"
  and build_list :: "json list \<Rightarrow> heap \<Rightarrow> pyval list \<times> heap"
  and build_members :: "(string \<times> json) list \<Rightarrow> heap \<Rightarrow> (string \<times> pyval) list \<times> heap"
where
  "build JNull h = (PNone, h)"
| "build (JBool b) h = (PBool b, h)"
| "build (JInt i) h = (PInt i, h)"
| "build (JFloat r) h = (PFloat r, h)"
| "build (JStr s) h = (PStr s, h)"
| "build (JArr js) h = (case build_list js h of (vs, h') \<Rightarrow> alloc h' (PList vs))"
| "build (JObj ms) h =
     (case build_members ms h of (kvs, h') \<Rightarrow> alloc h' (PDict (dict_of_members kvs)))"
| "build_list [] h = ([], h)"
| "build_list (j # js) h =
     (case build j h of (v, h1) \<Rightarrow>
        (case build_list js h1 of (vs, h2) \<Rightarrow> (v # vs, h2)))"
| "build_members [] h = ([], h)"
| "build_members (m # ms) h =
     (case build (snd m) h of (v, h1) \<Rightarrow>
        (case build_members ms h1 of (kvs, h2) \<Rightarrow> ((fst m, v) # kvs, h2)))"

section \<open>The property form: \<open>PropertyEditor\<close>\<close>

text \<open>
  \<open>update_list\<close>: the text of a list editor is parsed and the value stored through
  \<open>update_field\<close>; only \<open>json.JSONDecodeError\<close> is caught, and then nothing is done.
\<close>

definition update_list ::
  "jsonlib \<Rightarrow> heap \<Rightarrow> pyval \<Rightarrow> string \<Rightarrow> string \<Rightarrow> pyerr + (heap \<times> bool)" where
  "update_list L h cur field_path text =
     (case loads L text of
        Inl e \<Rightarrow> (if e = JSONDecodeError then Inr (h, False) else Inl e)
      | Inr j \<Rightarrow>
          (case build j h of
             (v, h1) \<Rightarrow>
               (case update_field h1 cur field_path v of
                  Inl e \<Rightarrow> (if e = JSONDecodeError then Inr (h1, False) else Inl e)
                | Inr r \<Rightarrow> Inr r)))"

text \<open>
  Qt's \<open>QSpinBox\<close>, an integer input: a new one has the range \<open>[0, 99]\<close> and the value
  \<open>0\<close>; the setters keep \<open>minimum \<le> maximum\<close> and the value inside the range.
\<close>

record QSpinBox =
  minimum :: int
  maximum :: int
  spin_value :: int

definition new_QSpinBox :: QSpinBox where
  "new_QSpinBox = \<lparr>minimum = 0, maximum = 99, spin_value = 0\<rparr>"

definition setRange :: "int \<Rightarrow> int \<Rightarrow> QSpinBox \<Rightarrow> QSpinBox" where
  "setRange lo hi s =
     \<lparr>minimum = lo, maximum = max lo hi,
      spin_value = max lo (min (max lo hi) (spin_value s))\<rparr>"

definition setMaximum :: "int \<Rightarrow> QSpinBox \<Rightarrow> QSpinBox" where
  "setMaximum m s = setRange (min (minimum s) m) m s"

definition setMinimum :: "int \<Rightarrow> QSpinBox \<Rightarrow> QSpinBox" where
  "setMinimum m s = setRange m (max (maximum s) m) s"

definition setValue :: "int \<Rightarrow> QSpinBox \<Rightarrow> QSpinBox" where
  "setValue v s = s\<lparr>spin_value := max (minimum s) (min (maximum s) v)\<rparr>"

text \<open>\<open>int(value)\<close> for a number: a \<open>float\<close> is truncated toward zero.\<close>

definition py_int :: "pyval \<Rightarrow> pyerr + int" where
  "py_int v =
     (case v of
        PInt i \<Rightarrow> Inr i
      | PFloat r \<Rightarrow> Inr (if 0 \<le> r then \<lfloor>r\<rfloor> else \<lceil>r\<rceil>)
      | PBool b \<Rightarrow> Inr (if b then 1 else 0)
      | _ \<Rightarrow> Inl TypeError)"

text \<open>
  The number input of \<open>add_editors\<close>:
  \<^verbatim>\<open>
  spin = QSpinBox() if isinstance(value, int) else QSpinBox()
  spin.setMaximum(999999)
  spin.setMinimum(-999999)
  spin.setValue(int(value) if isinstance(value, int) else int(value))
  \<close>
  Both branches of either conditional are the same expression. \<open>setValue\<close> takes a
  C \<open>int\<close>: a Python \<open>int\<close> outside its range is refused with \<open>OverflowError\<close>
  before the input can clamp it. (A \<open>float\<close> is a finite real here; \<open>int(value)\<close>
  on an infinity or a NaN, which raises, has no counterpart.)
\<close>

definition fits_c_int :: "int \<Rightarrow> bool" where
  "fits_c_int i \<longleftrightarrow> - 2147483648 \<le> i \<and> i \<le> 2147483647"

definition number_editor :: "pyval \<Rightarrow> pyerr + QSpinBox" where
  "number_editor v =
     (case py_int v of
        Inl e \<Rightarrow> Inl e
      | Inr i \<Rightarrow>
          if fits_c_int i then
            Inr (setValue i (setMinimum (- 999999) (setMaximum 999999 new_QSpinBox)))
          else Inl OverflowError)"

text \<open>The input widgets of the form, with what they show.\<close>

datatype editor =
    ListEditor string
  | BoolEditor string
  | NumberEditor QSpinBox
  | TextEditor string

text \<open>
  The widget chosen for a value that is not a \<open>dict\<close>, in the order of the
  \<open>isinstance\<close> tests: \<open>list\<close>, \<open>bool\<close>, \<open>int\<close> or \<open>float\<close>, anything else
  (\<open>str\<close> and \<open>None\<close>, shown as \<open>str(value)\<close>).
\<close>

definition editor_for :: "jsonlib \<Rightarrow> heap \<Rightarrow> pyval \<Rightarrow> pyerr + editor" where
  "editor_for L h v =
     (if is_list h v then
        (case dumps L h v of Inl e \<Rightarrow> Inl e | Inr t \<Rightarrow> Inr (ListEditor t))
      else
        (case v of
           PBool b \<Rightarrow> Inr (BoolEditor (if b then ''true'' else ''false''))
         | PInt i \<Rightarrow> (case number_editor v of Inl e \<Rightarrow> Inl e | Inr s \<Rightarrow> Inr (NumberEditor s))
         | PFloat r \<Rightarrow> (case number_editor v of Inl e \<Rightarrow> Inl e | Inr s \<Rightarrow> Inr (NumberEditor s))
         | PStr s \<Rightarrow> Inr (TextEditor s)
         | PNone \<Rightarrow> Inr (TextEditor ''None'')
         | PRef a \<Rightarrow> Inl TypeError))"

text \<open>\<open>data.items()\<close>: only a \<open>dict\<close> has it.\<close>

definition py_items :: "heap \<Rightarrow> pyval \<Rightarrow> pyerr + (string \<times> pyval) list" where
  "py_items h d =
     (case obj_at h d of
        Some (PDict kvs) \<Rightarrow> Inr kvs
      | _ \<Rightarrow> Inl AttributeError)"

text \<open>
  \<open>add_editors\<close>: the rows added to the form, each with its field path, and the
  exception that stopped it, if any. \<open>add_editors_loop\<close> is the \<open>for\<close> loop over the
  items.
\<close>

function add_editors ::
    "jsonlib \<Rightarrow> heap \<Rightarrow> pyval \<Rightarrow> string \<Rightarrow> nat \<Rightarrow> (string \<times> editor) list \<times> pyerr option"
  and add_editors_loop ::
    "jsonlib \<Rightarrow> heap \<Rightarrow> (string \<times> pyval) list \<Rightarrow> string \<Rightarrow> nat \<Rightarrow> (string \<times> editor) list \<times> pyerr option"
where
  "add_editors L h data prefix depth =
     (if depth > 3 then ([], None)
      else (case py_items h data of
              Inl e \<Rightarrow> ([], Some e)
            | Inr kvs \<Rightarrow> add_editors_loop L h kvs prefix depth))"
| "add_editors_loop L h [] prefix depth = ([], None)"
| "add_editors_loop L h (kv # rest) prefix depth =
     (let field_path = (if prefix \<noteq> [] then prefix @ ''.'' @ fst kv else fst kv) in
      (case (if is_dict h (snd kv) then add_editors L h (snd kv) field_path (depth + 1)
             else (case editor_for L h (snd kv) of
                     Inl e \<Rightarrow> ([], Some e)
                   | Inr ed \<Rightarrow> ([(field_path, ed)], None))) of
         (rows, Some e) \<Rightarrow> (rows, Some e)
       | (rows, None) \<Rightarrow>
           (case add_editors_loop L h rest prefix depth of
              (rows', r) \<Rightarrow> (rows @ rows', r))))"
  by pat_completeness auto
termination
  by (relation "measures
        [\<lambda>x. case x of
               Inl (L, h, d, p, depth) \<Rightarrow> (if depth > 3 then 0 else 2 * (4 - depth) + 2)
             | Inr (L, h, kvs, p, depth) \<Rightarrow> 2 * (4 - depth) + 1,
         \<lambda>x. case x of
               Inl (L, h, d, p, depth) \<Rightarrow> 0
             | Inr (L, h, kvs, p, depth) \<Rightarrow> length kvs]")
    auto

text \<open>
  A change made in a row of the form, as the connected handlers see it: the new text of a
  list editor, the new text of a two-state choice, the new value of a number input, the
  new text of a text input.
\<close>

datatype form_event =
    ListTextChanged string
  | ChoiceChanged string
  | SpinChanged int
  | TextChanged string

text \<open>The handler connected to a row with field path \<open>p\<close>.\<close>

definition on_edit ::
  "jsonlib \<Rightarrow> heap \<Rightarrow> pyval \<Rightarrow> string \<Rightarrow> form_event \<Rightarrow> pyerr + (heap \<times> bool)" where
  "on_edit L h cur p ev =
     (case ev of
        ListTextChanged t \<Rightarrow> update_list L h cur p t
      | ChoiceChanged t \<Rightarrow> update_field h cur p (PBool (t = ''true''))
      | SpinChanged i \<Rightarrow> update_field h cur p (PInt i)
      | TextChanged t \<Rightarrow> update_field h cur p (PStr t))"

section \<open>The tree view\<close>

text \<open>
  A row of the tree: the object attached with \<open>setData(0, Qt.UserRole, ...)\<close>
  (\<open>PNone\<close> when nothing was attached) and the rows below it. The item data is taken
  to be the Python object that was passed in. (PyQt5 keeps a \<open>dict\<close> with string keys
  as a converted copy and hands back a new, equal \<open>dict\<close>; a selection made from a row
  then shares nothing with the document, so the program can change no object that this
  model cannot.) The row's text is presentation only.
\<close>

datatype tree_item = TreeItem (item_data: pyval) (children: "tree_item list")

text \<open>
  The rows for the elements of a list whose first element is a \<open>dict\<close>: the label
  calls \<open>elem.get\<close>, which only a \<open>dict\<close> has, before the element is attached.
\<close>

fun elem_items :: "heap \<Rightarrow> pyval list \<Rightarrow> tree_item list \<times> pyerr option" where
  "elem_items h [] = ([], None)"
| "elem_items h (e # es) =
     (if is_dict h e then
        (case elem_items h es of (its, r) \<Rightarrow> (TreeItem e [] # its, r))
      else ([TreeItem PNone []], Some AttributeError))"

text \<open>The elements of a list object; no elements for any other value.\<close>

definition list_elems :: "heap \<Rightarrow> pyval \<Rightarrow> pyval list" where
  "list_elems h v = (case obj_at h v of Some (PList xs) \<Rightarrow> xs | _ \<Rightarrow> [])"

text \<open>
  The test \<open>isinstance(value, list) and value and isinstance(value[0], dict)\<close>.
\<close>

definition is_dict_list :: "heap \<Rightarrow> pyval \<Rightarrow> bool" where
  "is_dict_list h v =
     (case list_elems h v of [] \<Rightarrow> False | x # xs \<Rightarrow> is_dict h x)"

text \<open>
  \<open>add_tree_items\<close>: the rows added below \<open>parent\<close> for the object \<open>data\<close>, the
  store (the leaf rows allocate their \<open>{key: value}\<close> object) and the exception that
  stopped it, if any. The first argument bounds the depth of the recursion, as Python's
  recursion limit does; \<open>add_tree_entries\<close> is the \<open>for\<close> loop over the items.
\<close>

fun add_tree_items ::
    "nat \<Rightarrow> heap \<Rightarrow> pyval \<Rightarrow> (tree_item list \<times> heap) \<times> pyerr option"
  and add_tree_entries ::
    "nat \<Rightarrow> heap \<Rightarrow> (string \<times> pyval) list \<Rightarrow> (tree_item list \<times> heap) \<times> pyerr option"
where
  "add_tree_items 0 h data = (([], h), Some RecursionError)"
| "add_tree_items (Suc n) h data =
     (case py_items h data of
        Inl e \<Rightarrow> (([], h), Some e)
      | Inr kvs \<Rightarrow> add_tree_entries n h kvs)"
| "add_tree_entries n h [] = (([], h), None)"
| "add_tree_entries n h (kv # rest) =
     (case (if is_dict h (snd kv) then
              (case add_tree_items n h (snd kv) of
                 ((cs, h1), r) \<Rightarrow> (([TreeItem (snd kv) cs], h1), r))
            else if is_dict_list h (snd kv) then
              (case elem_items h (list_elems h (snd kv)) of
                 (cs, r) \<Rightarrow> (([TreeItem PNone cs], h), r))
            else
              (case alloc h (PDict [(fst kv, snd kv)]) of
                 (w, h1) \<Rightarrow> (([TreeItem w []], h1), None))) of
        ((its, h1), Some e) \<Rightarrow> ((its, h1), Some e)
      | ((its, h1), None) \<Rightarrow>
          (case add_tree_entries n h1 rest of
             ((its', h2), r) \<Rightarrow> ((its @ its', h2), r)))"

text \<open>
  \<open>populate_tree\<close> after \<open>self.json_tree.clear()\<close>: the root row is labelled with
  \<open>self.json_data.get('id', 'Root')\<close>; \<open>setText\<close> takes a \<open>str\<close> or \<open>None\<close> and
  refuses anything else.
\<close>

definition populate_tree ::
  "nat \<Rightarrow> heap \<Rightarrow> pyval \<Rightarrow> (tree_item list \<times> heap) \<times> pyerr option" where
  "populate_tree fuel h jd =
     (if \<not> truthy h jd then (([], h), None)
      else
        (case dict_get h jd ''id'' of
           Inl e \<Rightarrow> (([TreeItem PNone []], h), Some e)
         | Inr idv \<Rightarrow>
             (case or_default idv (PStr ''Root'') of
                PStr s \<Rightarrow>
                  (case add_tree_items fuel h jd of
                     ((cs, h1), r) \<Rightarrow> (([TreeItem PNone cs], h1), r))
              | PNone \<Rightarrow>
                  (case add_tree_items fuel h jd of
                     ((cs, h1), r) \<Rightarrow> (([TreeItem PNone cs], h1), r))
              | _ \<Rightarrow> (([TreeItem PNone []], h), Some TypeError))))"

section \<open>The main window: \<open>MobileUIEditor\<close>\<close>

text \<open>
  The state of the application and of the files it reads and writes: the store, the
  document \<open>json_data\<close>, the views, the selection \<open>current_data\<close> of the property form
  with its rows, the errors shown to the user with \<open>QMessageBox.critical\<close>, and the
  contents of the files (\<open>can_write\<close>: whether a path can be opened for writing).
\<close>

record window =
  store :: heap
  json_data :: pyval
  current_file :: "string option"
  modified :: bool
  tree :: "tree_item list"
  widgets_list :: "string list"
  widgets_items :: "widget_item list"
  raw_editor :: string
  raw_tab_active :: bool
  current_data :: pyval
  form_rows :: "(string \<times> editor) list"
  errors_shown :: "pyerr list"
  files :: "string \<Rightarrow> string option"
  can_write :: "string \<Rightarrow> bool"

text \<open>\<open>except Exception as e: QMessageBox.critical(...)\<close>.\<close>

definition show_error :: "pyerr \<Rightarrow> window \<Rightarrow> window" where
  "show_error e st = st\<lparr>errors_shown := errors_shown st @ [e]\<rparr>"

text \<open>
  \<open>populate_widgets_list\<close> after \<open>self.widgets_list.clear()\<close>: one entry per element
  of \<open>moduleElements\<close>; \<open>addItem\<close> takes a \<open>str\<close>, adds no entry for \<open>None\<close> and
  refuses anything else.
\<close>

fun widget_ids :: "heap \<Rightarrow> pyval list \<Rightarrow> string list \<times> pyerr option" where
  "widget_ids h [] = ([], None)"
| "widget_ids h (e # es) =
     (case dict_get h e ''id'' of
        Inl err \<Rightarrow> ([], Some err)
      | Inr idv \<Rightarrow>
          (case or_default idv (PStr ''Unknown'') of
             PStr s \<Rightarrow> (case widget_ids h es of (ids, r) \<Rightarrow> (s # ids, r))
           | PNone \<Rightarrow> widget_ids h es
           | _ \<Rightarrow> ([], Some TypeError)))"

definition populate_widgets_list :: "heap \<Rightarrow> pyval \<Rightarrow> string list \<times> pyerr option" where
  "populate_widgets_list h jd =
     (if \<not> truthy h jd then ([], None)
      else
        (case elements_of h jd ''moduleElements'' of
           Inl e \<Rightarrow> ([], Some e)
         | Inr ms \<Rightarrow> widget_ids h ms))"

text \<open>
  The four refreshing calls as steps on the window state; each gives the new state and
  the exception it raised, if any.
\<close>

definition do_populate_tree :: "nat \<Rightarrow> window \<Rightarrow> window \<times> pyerr option" where
  "do_populate_tree fuel st =
     (case populate_tree fuel (store st) (json_data st) of
        ((t, h), r) \<Rightarrow> (st\<lparr>tree := t, store := h\<rparr>, r))"

definition do_populate_widgets_list :: "window \<Rightarrow> window \<times> pyerr option" where
  "do_populate_widgets_list st =
     (case populate_widgets_list (store st) (json_data st) of
        (ids, r) \<Rightarrow> (st\<lparr>widgets_list := ids\<rparr>, r))"

definition do_load_canvas :: "window \<Rightarrow> window \<times> pyerr option" where
  "do_load_canvas st =
     (case load_canvas (store st) (json_data st) of
        ((items, h), r) \<Rightarrow> (st\<lparr>widgets_items := items, store := h\<rparr>, r))"

text \<open>
  \<open>update_raw_editor\<close>: the text is set with the signals of the raw editor blocked, so
  the document is not marked modified.
\<close>

definition update_raw_editor :: "jsonlib \<Rightarrow> window \<Rightarrow> window \<times> pyerr option" where
  "update_raw_editor L st =
     (if truthy (store st) (json_data st) then
        (case dumps L (store st) (json_data st) of
           Inl e \<Rightarrow> (st, Some e)
         | Inr t \<Rightarrow> (st\<lparr>raw_editor := t\<rparr>, None))
      else (st, None))"

text \<open>Sequencing of steps: the first exception ends the sequence.\<close>

definition then_do ::
  "window \<times> pyerr option \<Rightarrow> (window \<Rightarrow> window \<times> pyerr option) \<Rightarrow> window \<times> pyerr option" where
  "then_do r f = (case r of (st, Some e) \<Rightarrow> (st, Some e) | (st, None) \<Rightarrow> f st)"

text \<open>The end of a \<open>try\<close> block whose handler shows the error.\<close>

definition handled :: "window \<times> pyerr option \<Rightarrow> window" where
  "handled r = (case r of (st, Some e) \<Rightarrow> show_error e st | (st, None) \<Rightarrow> st)"

text \<open>
  \<open>load_file\<close>. The file is read and parsed first; \<open>self.json_data\<close> is assigned only
  once \<open>json.load\<close> has returned. A missing or unreadable file raises \<open>OSError\<close>.
\<close>

definition load_file :: "jsonlib \<Rightarrow> nat \<Rightarrow> string \<Rightarrow> window \<Rightarrow> window" where
  "load_file L fuel file_path st =
     handled
       (case files st file_path of
          None \<Rightarrow> (st, Some OSError)
        | Some text \<Rightarrow>
            (case loads L text of
               Inl e \<Rightarrow> (st, Some e)
             | Inr j \<Rightarrow>
                 (case build j (store st) of
                    (v, h) \<Rightarrow>
                      then_do (then_do (then_do
                        (do_populate_tree fuel
                           (st\<lparr>store := h, json_data := v,
                              current_file := Some file_path, modified := False\<rparr>))
                        do_populate_widgets_list)
                        do_load_canvas)
                        (update_raw_editor L))))"

text \<open>
  The \<open>try\<close> block of \<open>save_file\<close> for the current file \<open>p\<close>: the raw text replaces the
  document only when the raw tab is the active one; opening the file for writing empties
  it; then the document is written, and the tree and the canvas are rebuilt.
\<close>

definition write_file :: "jsonlib \<Rightarrow> string \<Rightarrow> window \<Rightarrow> window \<times> pyerr option" where
  "write_file L p st =
     (if \<not> can_write st p then (st, Some OSError)
      else
        (case dump_file L (store st) (json_data st) of
           (t, r) \<Rightarrow>
             (st\<lparr>files := (files st)(p \<mapsto> t),
                 modified := (if r = None then False else modified st)\<rparr>, r)))"

definition sync_from_raw :: "jsonlib \<Rightarrow> window \<Rightarrow> window \<times> pyerr option" where
  "sync_from_raw L st =
     (if raw_tab_active st then
        (case loads L (raw_editor st) of
           Inl e \<Rightarrow> (st, Some e)
         | Inr j \<Rightarrow>
             (case build j (store st) of
                (v, h) \<Rightarrow> (st\<lparr>store := h, json_data := v\<rparr>, None)))
      else (st, None))"

definition save_current :: "jsonlib \<Rightarrow> nat \<Rightarrow> string \<Rightarrow> window \<Rightarrow> window" where
  "save_current L fuel p st =
     handled
       (then_do (then_do (then_do
          (sync_from_raw L st)
          (write_file L p))
          (do_populate_tree fuel))
          do_load_canvas)"


definition save_file_as :: "jsonlib \<Rightarrow> nat \<Rightarrow> string option \<Rightarrow> window \<Rightarrow> window" where
  "save_file_as L fuel chosen st =
     (case chosen of
        None \<Rightarrow> st
      | Some q \<Rightarrow>
          if q = [] then st
          else save_current L fuel q (st\<lparr>current_file := Some q\<rparr>))"

text \<open>
  Selection. \<open>load_data\<close> replaces the selection of the property form and rebuilds its
  rows; \<open>tree_item_clicked\<close> does so only for item data that is truthy. An exception
  raised while the rows are built leaves the slot with the rows built so far.
\<close>

definition load_data :: "jsonlib \<Rightarrow> pyval \<Rightarrow> window \<Rightarrow> window \<times> pyerr option" where
  "load_data L data st =
     (if \<not> truthy (store st) data then (st\<lparr>current_data := data, form_rows := []\<rparr>, None)
      else
        (case add_editors L (store st) data [] 0 of
           (rows, r) \<Rightarrow> (st\<lparr>current_data := data, form_rows := rows\<rparr>, r)))"

definition tree_item_clicked :: "jsonlib \<Rightarrow> tree_item \<Rightarrow> window \<Rightarrow> window \<times> pyerr option" where
  "tree_item_clicked L item st =
     (if truthy (store st) (item_data item) then load_data L (item_data item) st
      else (st, None))"

text \<open>
  A change made in the row with field path \<open>p\<close> of the form: the handler runs on the
  current selection; \<open>property_changed\<close> is connected to \<open>mark_modified\<close>.
\<close>

definition form_edit :: "jsonlib \<Rightarrow> string \<Rightarrow> form_event \<Rightarrow> window \<Rightarrow> window \<times> pyerr option" where
  "form_edit L p ev st =
     (case on_edit L (store st) (current_data st) p ev of
        Inl e \<Rightarrow> (st, Some e)
      | Inr (h, changed) \<Rightarrow>
          (st\<lparr>store := h, modified := (modified st \<or> changed)\<rparr>, None))"

text \<open>
  Typing in the raw editor: \<open>textChanged\<close> is connected to \<open>mark_modified\<close>; the
  document is not touched.
\<close>

definition edit_raw_text :: "string \<Rightarrow> window \<Rightarrow> window" where
  "edit_raw_text t st = st\<lparr>raw_editor := t, modified := True\<rparr>"

text \<open>
  A sequence of changes made in rows of the form, each given by the index of its row. An
  exception raised by a handler ends that handler only, and later changes still run.
  (PyQt5 ends the program when an exception leaves a handler; the runs of the program are
  the runs of this model in which no handler raises, and their prefixes.)
\<close>

fun row_edits :: "jsonlib \<Rightarrow> (nat \<times> form_event) list \<Rightarrow> window \<Rightarrow> window" where
  "row_edits L [] st = st"
| "row_edits L (iev # evs) st =
     (if fst iev < length (form_rows st) then
        row_edits L evs (fst (form_edit L (fst (form_rows st ! fst iev)) (snd iev) st))
      else row_edits L evs st)"

section \<open>Elements without a position\<close>

text \<open>
  An element that is an object and has no \<open>props\<close> key, or whose \<open>props\<close> is an
  object without a \<open>position\<close> key.
\<close>

definition lacks_position :: "heap \<Rightarrow> pyval \<Rightarrow> bool" where
  "lacks_position h wd =
     (case obj_at h wd of
        Some (PDict kvs) \<Rightarrow>
          (case map_of kvs ''props'' of
             None \<Rightarrow> True
           | Some p \<Rightarrow>
               (case obj_at h p of
                  Some (PDict pkvs) \<Rightarrow> map_of pkvs ''position'' = None
                | _ \<Rightarrow> False))
      | _ \<Rightarrow> False)"

section \<open>Selection of a single-key object\<close>

text \<open>
  The state of a selected single-key object: it is the selection, it has the single key
  \<open>k\<close>, and every row of the form has the field path \<open>k\<close>.
\<close>

definition wrapper_selected :: "addr \<Rightarrow> string \<Rightarrow> window \<Rightarrow> bool" where
  "wrapper_selected a k st \<longleftrightarrow>
     current_data st = PRef a \<and> a < length (store st) \<and>
     (\<exists>w. store st ! a = PDict [(k, w)]) \<and>
     fst ` set (form_rows st) \<subseteq> {k}"

text \<open>What an edit may change: the object at \<open>a\<close>, and new objects.\<close>

definition only_changes :: "addr \<Rightarrow> window \<Rightarrow> window \<Rightarrow> bool" where
  "only_changes a st st' \<longleftrightarrow>
     json_data st' = json_data st \<and> length (store st) \<le> length (store st') \<and>
     (\<forall>b < length (store st). b \<noteq> a \<longrightarrow> store st' ! b = store st ! b)"

section \<open>The shape of parsed documents\<close>

text \<open>
  The addresses an object refers to. A store is \<open>downward\<close> when every object refers
  only to objects allocated before it: the shape of the stores the parser builds, where
  the members of an array or object are built before the array or object itself.
\<close>

definition refs_of :: "pyobj \<Rightarrow> addr set" where
  "refs_of ob =
     (case ob of
        PDict kvs \<Rightarrow> {c. \<exists>k. (k, PRef c) \<in> set kvs}
      | PList xs \<Rightarrow> {c. PRef c \<in> set xs})"

definition downward :: "heap \<Rightarrow> bool" where
  "downward h \<longleftrightarrow> (\<forall>a < length h. \<forall>c \<in> refs_of (h ! a). c < a)"

section \<open>Properties of the store operations\<close>

lemma map_of_dict_set_same: "map_of (dict_set k v kvs) k = Some v"
  by (induction kvs) auto

lemma map_of_dict_set_other: "k' \<noteq> k \<Longrightarrow> map_of (dict_set k v kvs) k' = map_of kvs k'"
  by (induction kvs) auto

lemma obj_at_update_other: "d \<noteq> PRef a \<Longrightarrow> obj_at (h[a := ob]) d = obj_at h d"
  by (cases d) (auto simp: obj_at_def)

lemma obj_at_Some_ref: "obj_at h v = Some ob \<Longrightarrow> \<exists>a. v = PRef a \<and> a < length h \<and> h ! a = ob"
  by (cases v) (auto simp: obj_at_def split: if_splits)

lemma getitem_update_other: "d \<noteq> PRef a \<Longrightarrow> getitem (h[a := ob]) d k = getitem h d k"
  by (simp add: getitem_def obj_at_update_other)

lemma getitem_PathError: "getitem h d k = Inl e \<Longrightarrow> is_PathError e"
  by (auto simp: getitem_def split: option.splits pyobj.splits)

lemma setitem_dict:
  "is_dict h p \<Longrightarrow> \<exists>a kvs. p = PRef a \<and> a < length h \<and> h ! a = PDict kvs \<and>
      setitem h p k v = Inr (h[a := PDict (dict_set k v kvs)])"
  by (cases p) (auto simp: is_dict_def obj_at_def setitem_def split: if_splits pyobj.splits)

lemma setitem_not_dict: "\<not> is_dict h p \<Longrightarrow> setitem h p k v = Inl TypeError"
  by (cases p) (auto simp: is_dict_def setitem_def split: option.splits pyobj.splits)

section \<open>Properties of the field-path resolver\<close>

lemma split_dot_nonempty: "split_dot s \<noteq> []"
  by (induction s) (auto split: list.splits)

lemma walk_append:
  "walk h d (xs @ ys) = (case walk h d xs of Inl e \<Rightarrow> Inl e | Inr d' \<Rightarrow> walk h d' ys)"
  by (induction xs arbitrary: d) (auto split: sum.splits)

lemma walk_PathError: "walk h d ks = Inl e \<Longrightarrow> is_PathError e"
  by (induction ks arbitrary: d) (auto split: sum.splits dest: getitem_PathError)

lemma walk_update_unvisited:
  "PRef a \<notin> set (visited h d ks) \<Longrightarrow> walk (h[a := ob]) d ks = walk h d ks"
proof (induction ks arbitrary: d)
  case Nil
  then show ?case by simp
next
  case (Cons k ks)
  then have neq: "d \<noteq> PRef a" by auto
  show ?case
  proof (cases "getitem h d k")
    case (Inl e)
    then show ?thesis using neq by (simp add: getitem_update_other)
  next
    case (Inr d')
    with Cons.prems have "PRef a \<notin> set (visited h d' ks)" by simp
    then have "walk (h[a := ob]) d' ks = walk h d' ks" by (rule Cons.IH)
    then show ?thesis using neq Inr by (simp add: getitem_update_other)
  qed
qed

lemma update_field_stores:
  assumes tr: "truthy h cur"
      and wk: "walk h cur (butlast (split_dot path)) = Inr p"
      and dp: "is_dict h p"
      and nv: "p \<notin> set (visited h cur (butlast (split_dot path)))"
  shows "\<exists>h'. update_field h cur path v = Inr (h', True) \<and> walk h' cur (split_dot path) = Inr v"
proof -
  let ?keys = "split_dot path"
  from setitem_dict [OF dp] obtain a kvs where
    p: "p = PRef a" and a: "a < length h" and ha: "h ! a = PDict kvs" and
    st: "setitem h p (last ?keys) v = Inr (h[a := PDict (dict_set (last ?keys) v kvs)])"
    by blast
  let ?h' = "h[a := PDict (dict_set (last ?keys) v kvs)]"
  have upd: "update_field h cur path v = Inr (?h', True)"
    using tr wk st by (simp add: update_field_def)
  have keys: "?keys = butlast ?keys @ [last ?keys]"
    using split_dot_nonempty by simp
  have w1: "walk ?h' cur (butlast ?keys) = Inr p"
    using nv wk p by (simp add: walk_update_unvisited)
  have g: "getitem ?h' p (last ?keys) = Inr v"
    using p a by (simp add: getitem_def obj_at_def map_of_dict_set_same)
  have "walk ?h' cur (butlast ?keys @ [last ?keys]) = Inr v"
    using w1 g by (simp add: walk_append)
  with keys have "walk ?h' cur ?keys = Inr v" by simp
  with upd show ?thesis by blast
qed

text \<open>
  C3, as amended. When the selected object is not empty, the objects named by the
  segments before the last all exist, the last of them (the parent) is a \<open>dict\<close> and is
  not one of its own ancestors on the path (a JSON document is a tree),
  \<open>update_field\<close> returns normally, emits \<open>property_changed\<close>, and reading the same
  path in the new store gives the value; the last key is inserted when it was absent.
\<close>

theorem update_field_sets_path:
  assumes "truthy h cur"
      and "walk h cur (butlast (split_dot path)) = Inr p"
      and "is_dict h p"
      and "p \<notin> set (visited h cur (butlast (split_dot path)))"
  shows "\<exists>h'. update_field h cur path v = Inr (h', True) \<and> walk h' cur (split_dot path) = Inr v"
  using assms by (rule update_field_stores)

theorem update_field_sets_path_witness:
  "\<exists>h'. update_field
           [PDict [(''a'', PRef 1)], PDict [(''b'', PRef 2)], PDict [(''z'', PInt 0)]]
           (PRef 0) ''a.b.c'' (PStr ''v'') = Inr (h', True) \<and>
        walk h' (PRef 0) [''a'', ''b'', ''c''] = Inr (PStr ''v'')"
  using update_field_sets_path
    [of "[PDict [(''a'', PRef 1)], PDict [(''b'', PRef 2)], PDict [(''z'', PInt 0)]]"
        "PRef 0" "''a.b.c''" "PRef 2" "PStr ''v''"]
  by (simp add: truthy_def obj_at_def getitem_def is_dict_def)

theorem update_field_empty_selection_no_insert:
  "walk [PDict []] (PRef 0) (butlast (split_dot ''c'')) = Inr (PRef 0) \<and>
   is_dict [PDict []] (PRef 0) \<and>
   update_field [PDict []] (PRef 0) ''c'' (PInt 1) = Inr ([PDict []], False) \<and>
   walk [PDict []] (PRef 0) (split_dot ''c'') = Inl (KeyError ''c'')"
  by (simp add: update_field_def truthy_def obj_at_def getitem_def is_dict_def)

text \<open>
  C2, as amended. When the selected object is not empty and the segments before the last
  do not lead to a \<open>dict\<close> (one of them is missing, or is not an object),
  \<open>update_field\<close> raises \<open>KeyError\<close> or \<open>TypeError\<close>, for every path; nothing is
  stored.
\<close>

theorem update_field_missing_segment:
  assumes tr: "truthy h cur"
      and miss: "\<not> (\<exists>p. walk h cur (butlast (split_dot path)) = Inr p \<and> is_dict h p)"
  shows "\<exists>e. update_field h cur path v = Inl e \<and> is_PathError e"
proof (cases "walk h cur (butlast (split_dot path))")
  case (Inl e)
  then show ?thesis using tr by (auto simp: update_field_def dest: walk_PathError)
next
  case (Inr p)
  with miss have "\<not> is_dict h p" by simp
  then have "setitem h p (last (split_dot path)) v = Inl TypeError"
    by (rule setitem_not_dict)
  then show ?thesis using tr Inr by (simp add: update_field_def)
qed

theorem update_field_missing_segment_witness:
  "\<exists>e. update_field [PDict [(''a'', PRef 1)], PDict [(''b'', PInt 1)]] (PRef 0)
          ''a.missing.c'' (PInt 5) = Inl e \<and> is_PathError e"
  using update_field_missing_segment
    [of "[PDict [(''a'', PRef 1)], PDict [(''b'', PInt 1)]]" "PRef 0" "''a.missing.c''" "PInt 5"]
  by (simp add: truthy_def obj_at_def getitem_def is_dict_def)

theorem update_field_empty_selection_silent:
  "walk [PDict []] (PRef 0) (butlast (split_dot ''a.missing.c'')) = Inl (KeyError ''a'') \<and>
   update_field [PDict []] (PRef 0) ''a.missing.c'' (PInt 1) = Inr ([PDict []], False)"
  by (simp add: update_field_def truthy_def obj_at_def getitem_def)

lemma update_field_missing_key_example:
  "update_field [PDict [(''a'', PRef 1)], PDict [(''b'', PInt 1)]] (PRef 0)
     ''a.missing.c'' (PInt 5) = Inl (KeyError ''missing'')"
  by (simp add: update_field_def truthy_def obj_at_def getitem_def)

section \<open>Properties of the canvas\<close>

lemmas store_simps =
  dict_get_def py_contains_def alloc_def setitem_def getitem_def obj_at_def
  nth_append nth_list_update map_of_dict_set_same map_of_dict_set_other

lemma itemChange_no_props:
  assumes el: "obj_at h wd = Some (PDict kvs)" and np: "map_of kvs ''props'' = None"
  shows "\<exists>h' n. itemChange h wd ItemPositionChange (x, y) = Inr h' \<and>
          walk h' wd [''props'', ''position''] = Inr (PRef n) \<and>
          obj_at h' (PRef n) = Some (PDict [(''x'', PFloat x), (''y'', PFloat y)])"
proof -
  from obj_at_Some_ref [OF el] obtain a where
    wd: "wd = PRef a" and a: "a < length h" and ha: "h ! a = PDict kvs"
    by blast
  show ?thesis
    using a ha np unfolding wd
    by (simp add: itemChange_def ensure_position_def set_coord_def store_simps)
qed

lemma itemChange_no_position:
  assumes el: "obj_at h wd = Some (PDict kvs)" and pr: "map_of kvs ''props'' = Some p"
    and pd: "obj_at h p = Some (PDict pkvs)" and np: "map_of pkvs ''position'' = None"
  shows "\<exists>h' n. itemChange h wd ItemPositionChange (x, y) = Inr h' \<and>
          walk h' wd [''props'', ''position''] = Inr (PRef n) \<and>
          obj_at h' (PRef n) = Some (PDict [(''x'', PFloat x), (''y'', PFloat y)])"
proof -
  from obj_at_Some_ref [OF el] obtain a where
    wd: "wd = PRef a" and a: "a < length h" and ha: "h ! a = PDict kvs"
    by blast
  from obj_at_Some_ref [OF pd] obtain b where
    p: "p = PRef b" and b: "b < length h" and hb: "h ! b = PDict pkvs"
    by blast
  show ?thesis
  proof (cases "b = a")
    case True
    with ha hb have same: "pkvs = kvs" by simp
    show ?thesis
      using a ha np pr True unfolding wd p same
      by (simp add: itemChange_def ensure_position_def set_coord_def store_simps)
  next
    case False
    then show ?thesis
      using a ha b hb np pr unfolding wd p
      by (simp add: itemChange_def ensure_position_def set_coord_def store_simps)
  qed
qed

lemma lacks_position_cases:
  assumes lp: "lacks_position h wd"
  obtains kvs where "obj_at h wd = Some (PDict kvs)" and "map_of kvs ''props'' = None"
  | kvs p pkvs where "obj_at h wd = Some (PDict kvs)" and "map_of kvs ''props'' = Some p"
      and "obj_at h p = Some (PDict pkvs)" and "map_of pkvs ''position'' = None"
proof (cases "obj_at h wd")
  case None
  with lp show ?thesis by (simp add: lacks_position_def)
next
  case (Some ob)
  show ?thesis
  proof (cases ob)
    case (PList xs)
    with lp Some show ?thesis by (simp add: lacks_position_def)
  next
    case (PDict kvs)
    show ?thesis
    proof (cases "map_of kvs ''props''")
      case None
      with Some PDict that(1) show ?thesis by simp
    next
      case (Some p)
      note props = this
      show ?thesis
      proof (cases "obj_at h p")
        case None
        with lp \<open>obj_at h wd = Some ob\<close> PDict props show ?thesis
          by (simp add: lacks_position_def)
      next
        case (Some pob)
        show ?thesis
        proof (cases pob)
          case (PList ys)
          with lp \<open>obj_at h wd = Some ob\<close> PDict props Some show ?thesis
            by (simp add: lacks_position_def)
        next
          case (PDict pkvs)
          with lp \<open>obj_at h wd = Some ob\<close> \<open>ob = PDict kvs\<close> props Some
          have "map_of pkvs ''position'' = None" by (simp add: lacks_position_def)
          with \<open>obj_at h wd = Some ob\<close> \<open>ob = PDict kvs\<close> props Some PDict that(2)
          show ?thesis by simp
        qed
      qed
    qed
  qed
qed

lemma itemChange_lacks_position:
  assumes "lacks_position h wd"
  shows "\<exists>h' n. itemChange h wd ItemPositionChange (x, y) = Inr h' \<and>
          walk h' wd [''props'', ''position''] = Inr (PRef n) \<and>
          obj_at h' (PRef n) = Some (PDict [(''x'', PFloat x), (''y'', PFloat y)]) \<and>
          walk h' wd [''props'', ''position'', ''x''] = Inr (PFloat x) \<and>
          walk h' wd [''props'', ''position'', ''y''] = Inr (PFloat y)"
proof -
  have "\<exists>h' n. itemChange h wd ItemPositionChange (x, y) = Inr h' \<and>
          walk h' wd [''props'', ''position''] = Inr (PRef n) \<and>
          obj_at h' (PRef n) = Some (PDict [(''x'', PFloat x), (''y'', PFloat y)])"
    using assms
    by (rule lacks_position_cases) (erule (1) itemChange_no_props, erule (3) itemChange_no_position)
  then obtain h' n where
    ic: "itemChange h wd ItemPositionChange (x, y) = Inr h'" and
    wp: "walk h' wd [''props'', ''position''] = Inr (PRef n)" and
    ob: "obj_at h' (PRef n) = Some (PDict [(''x'', PFloat x), (''y'', PFloat y)])"
    by blast
  have wx: "walk h' wd ([''props'', ''position''] @ [''x'']) = Inr (PFloat x)"
    unfolding walk_append using wp ob by (simp add: getitem_def)
  have wy: "walk h' wd ([''props'', ''position''] @ [''y'']) = Inr (PFloat y)"
    unfolding walk_append using wp ob by (simp add: getitem_def)
  from ic wp ob wx wy show ?thesis by auto
qed

text \<open>
  \<open>update_field\<close> has no special case for position paths: on a non-empty element
  without a position it raises \<open>KeyError\<close>, for the missing \<open>props\<close> or the missing
  \<open>position\<close>.
\<close>

lemma update_field_position_KeyError:
  assumes lp: "lacks_position h wd" and tr: "truthy h wd"
  shows "\<exists>k. update_field h wd (''props.position.'' @ axis) v = Inl (KeyError k)"
proof -
  obtain w ws where sp: "split_dot axis = w # ws"
    using split_dot_nonempty [of axis] by (cases "split_dot axis") auto
  have keys: "split_dot (''props.position.'' @ axis) = ''props'' # ''position'' # w # ws"
    using sp by simp
  have bl: "butlast (''props'' # ''position'' # w # ws) = ''props'' # ''position'' # butlast (w # ws)"
    by simp
  from lp show ?thesis
  proof (cases rule: lacks_position_cases)
    case (1 kvs)
    then have "getitem h wd ''props'' = Inl (KeyError ''props'')" by (simp add: getitem_def)
    then have "update_field h wd (''props.position.'' @ axis) v = Inl (KeyError ''props'')"
      using tr unfolding update_field_def keys Let_def bl by simp
    then show ?thesis by blast
  next
    case (2 kvs p pkvs)
    then have "getitem h wd ''props'' = Inr p" and "getitem h p ''position'' = Inl (KeyError ''position'')"
      by (simp_all add: getitem_def)
    then have "update_field h wd (''props.position.'' @ axis) v = Inl (KeyError ''position'')"
      using tr unfolding update_field_def keys Let_def bl by simp
    then show ?thesis by blast
  qed
qed

text \<open>
  C1, as amended. For every element object without a \<open>props\<close> key, or whose \<open>props\<close>
  is an object without a \<open>position\<close> key, a position change reported to the canvas
  shape (\<open>DraggableWidget.itemChange\<close>) succeeds: the missing objects are created
  empty, the coordinates are assigned, and afterwards \<open>props.position\<close> of the element
  is the object \<open>{x, y}\<close> with the new coordinates. The special case lives in
  \<open>itemChange\<close>, which writes to the element directly; \<open>update_field\<close> has none: on
  such an element, when it is not empty, the paths \<open>props.position.x\<close> and
  \<open>props.position.y\<close> raise \<open>KeyError\<close>.
\<close>

theorem itemChange_creates_position:
  assumes "lacks_position h wd"
  shows "(\<exists>h' n. itemChange h wd ItemPositionChange (x, y) = Inr h' \<and>
            walk h' wd [''props'', ''position''] = Inr (PRef n) \<and>
            obj_at h' (PRef n) = Some (PDict [(''x'', PFloat x), (''y'', PFloat y)]) \<and>
            walk h' wd [''props'', ''position'', ''x''] = Inr (PFloat x) \<and>
            walk h' wd [''props'', ''position'', ''y''] = Inr (PFloat y)) \<and>
         (truthy h wd \<longrightarrow>
            (\<exists>k. update_field h wd ''props.position.x'' v = Inl (KeyError k)) \<and>
            (\<exists>k. update_field h wd ''props.position.y'' v = Inl (KeyError k)))"
proof (intro conjI impI)
  show "\<exists>h' n. itemChange h wd ItemPositionChange (x, y) = Inr h' \<and>
            walk h' wd [''props'', ''position''] = Inr (PRef n) \<and>
            obj_at h' (PRef n) = Some (PDict [(''x'', PFloat x), (''y'', PFloat y)]) \<and>
            walk h' wd [''props'', ''position'', ''x''] = Inr (PFloat x) \<and>
            walk h' wd [''props'', ''position'', ''y''] = Inr (PFloat y)"
    using assms by (rule itemChange_lacks_position)
next
  assume tr: "truthy h wd"
  from update_field_position_KeyError [OF assms tr, of "''x''" v]
  show "\<exists>k. update_field h wd ''props.position.x'' v = Inl (KeyError k)" by simp
next
  assume tr: "truthy h wd"
  from update_field_position_KeyError [OF assms tr, of "''y''" v]
  show "\<exists>k. update_field h wd ''props.position.y'' v = Inl (KeyError k)" by simp
qed

theorem itemChange_creates_position_witness:
  "lacks_position [PDict [(''id'', PStr ''btn1'')]] (PRef 0) \<and>
   truthy [PDict [(''id'', PStr ''btn1'')]] (PRef 0) \<and>
   (\<exists>h' n. itemChange [PDict [(''id'', PStr ''btn1'')]] (PRef 0) ItemPositionChange (42, 7) = Inr h' \<and>
      walk h' (PRef 0) [''props'', ''position''] = Inr (PRef n) \<and>
      obj_at h' (PRef n) = Some (PDict [(''x'', PFloat 42), (''y'', PFloat 7)]) \<and>
      walk h' (PRef 0) [''props'', ''position'', ''x''] = Inr (PFloat 42) \<and>
      walk h' (PRef 0) [''props'', ''position'', ''y''] = Inr (PFloat 7)) \<and>
   (\<exists>k. update_field [PDict [(''id'', PStr ''btn1'')]] (PRef 0) ''props.position.x'' (PInt 42)
      = Inl (KeyError k)) \<and>
   (\<exists>k. update_field [PDict [(''id'', PStr ''btn1'')]] (PRef 0) ''props.position.y'' (PInt 42)
      = Inl (KeyError k))"
proof -
  have lp: "lacks_position [PDict [(''id'', PStr ''btn1'')]] (PRef 0)"
    by (simp add: lacks_position_def obj_at_def)
  have tr: "truthy [PDict [(''id'', PStr ''btn1'')]] (PRef 0)"
    by (simp add: truthy_def obj_at_def)
  from lp tr itemChange_creates_position [OF lp, of 42 7 "PInt 42"] show ?thesis by blast
qed

text \<open>
  On the empty element the guard of \<open>update_field\<close> returns before the path is looked
  at: nothing is raised and nothing is stored.
\<close>

lemma update_field_position_empty_element:
  "lacks_position [PDict []] (PRef 0) \<and>
   update_field [PDict []] (PRef 0) ''props.position.x'' (PInt 42) = Inr ([PDict []], False)"
  by (simp add: lacks_position_def update_field_def truthy_def obj_at_def)

theorem update_field_position_unset_raises:
  "lacks_position [PDict [(''id'', PStr ''btn1'')]] (PRef 0) \<and>
   update_field [PDict [(''id'', PStr ''btn1'')]] (PRef 0) ''props.position.x'' (PInt 42)
     = Inl (KeyError ''props'')"
  by (simp add: lacks_position_def update_field_def truthy_def obj_at_def getitem_def)

lemma itemChange_example:
  "itemChange [PDict [(''id'', PStr ''btn1'')]] (PRef 0) ItemPositionChange (42, 7) =
     Inr [PDict [(''id'', PStr ''btn1''), (''props'', PRef 1)],
          PDict [(''position'', PRef 2)],
          PDict [(''x'', PFloat 42), (''y'', PFloat 7)]]"
  by (simp add: itemChange_def ensure_position_def set_coord_def store_simps)



text \<open>
  The document \<open>{"moduleElements": [{"id": "a"}, {"id": "b", "props": {"color": "red"}}]}\<close>
  on the canvas: two shapes, at (50, 50) and (70, 70), each 150 by 100. Placing a shape
  reports its position to \<open>itemChange\<close>, which records it in the element.
\<close>

lemma load_canvas_two_elements:
  "load_canvas
     [PDict [(''id'', PStr ''a'')], PDict [(''id'', PStr ''b''), (''props'', PRef 2)],
      PDict [(''color'', PStr ''red'')], PList [PRef 0, PRef 1],
      PDict [(''moduleElements'', PRef 3)]] (PRef 4) =
   (([\<lparr>widget_data = PRef 0, pos_x = 50, pos_y = 50, width = 150, height = 100\<rparr>,
      \<lparr>widget_data = PRef 1, pos_x = 70, pos_y = 70, width = 150, height = 100\<rparr>],
     [PDict [(''id'', PStr ''a''), (''props'', PRef 5)],
      PDict [(''id'', PStr ''b''), (''props'', PRef 2)],
      PDict [(''color'', PStr ''red''), (''position'', PRef 7)],
      PList [PRef 0, PRef 1], PDict [(''moduleElements'', PRef 3)],
      PDict [(''position'', PRef 6)],
      PDict [(''x'', PFloat 50), (''y'', PFloat 50)],
      PDict [(''x'', PFloat 70), (''y'', PFloat 70)]]),
    None)"
  by (simp add: load_canvas_def truthy_def elements_of_def py_iter_def add_widget_def
      new_DraggableWidget_def get_or_empty_def or_default_def to_qreal_def
      itemChange_def ensure_position_def set_coord_def store_simps)

section \<open>Properties of the property form\<close>

lemma update_field_error_is_PathError:
  "update_field h cur p v = Inl e \<Longrightarrow> is_PathError e"
  by (auto simp: update_field_def Let_def setitem_def
      split: if_splits sum.splits pyval.splits option.splits pyobj.splits
      dest: walk_PathError)

text \<open>
  C9. A list-editor text that does not parse as JSON is dropped: \<open>update_list\<close>
  returns normally, raises nothing, leaves the store as it was and does not emit
  \<open>property_changed\<close>. A text that parses is built into objects and stored through
  \<open>update_field\<close>, whose outcome is the outcome of \<open>update_list\<close>.
\<close>

theorem update_list_lenient:
  "(loads L text = Inl JSONDecodeError \<longrightarrow> update_list L h cur p text = Inr (h, False)) \<and>
   (\<forall>j. loads L text = Inr j \<longrightarrow>
      update_list L h cur p text =
        (case build j h of (v, h1) \<Rightarrow> update_field h1 cur p v))"
proof (intro conjI allI impI)
  assume "loads L text = Inl JSONDecodeError"
  then show "update_list L h cur p text = Inr (h, False)"
    by (simp add: update_list_def)
next
  fix j
  assume ok: "loads L text = Inr j"
  obtain v h1 where b: "build j h = (v, h1)" by (cases "build j h")
  show "update_list L h cur p text = (case build j h of (v, h1) \<Rightarrow> update_field h1 cur p v)"
  proof (cases "update_field h1 cur p v")
    case (Inl e)
    then have "is_PathError e" by (rule update_field_error_is_PathError)
    then have "e \<noteq> JSONDecodeError" by auto
    with ok b Inl show ?thesis by (simp add: update_list_def)
  next
    case (Inr r)
    with ok b show ?thesis by (simp add: update_list_def)
  qed
qed

theorem update_list_lenient_witness:
  "update_list
     \<lparr>loads = (\<lambda>t. if t = ''[1, 2]'' then Inr (JArr [JInt 1, JInt 2]) else Inl JSONDecodeError),
      dumps = (\<lambda>h v. Inl SerializeError), dump_file = (\<lambda>h v. ([], None))\<rparr>
     [PDict [(''tags'', PRef 1)], PList [PInt 1]] (PRef 0) ''tags'' ''[1, 2'' =
     Inr ([PDict [(''tags'', PRef 1)], PList [PInt 1]], False) \<and>
   update_list
     \<lparr>loads = (\<lambda>t. if t = ''[1, 2]'' then Inr (JArr [JInt 1, JInt 2]) else Inl JSONDecodeError),
      dumps = (\<lambda>h v. Inl SerializeError), dump_file = (\<lambda>h v. ([], None))\<rparr>
     [PDict [(''tags'', PRef 1)], PList [PInt 1]] (PRef 0) ''tags'' ''[1, 2]'' =
     Inr ([PDict [(''tags'', PRef 2)], PList [PInt 1], PList [PInt 1, PInt 2]], True)"
  using
    update_list_lenient [of
      "\<lparr>loads = (\<lambda>t. if t = ''[1, 2]'' then Inr (JArr [JInt 1, JInt 2]) else Inl JSONDecodeError),
        dumps = (\<lambda>h v. Inl SerializeError), dump_file = (\<lambda>h v. ([], None))\<rparr>"
      "''[1, 2''" "[PDict [(''tags'', PRef 1)], PList [PInt 1]]" "PRef 0" "''tags''"]
    update_list_lenient [of
      "\<lparr>loads = (\<lambda>t. if t = ''[1, 2]'' then Inr (JArr [JInt 1, JInt 2]) else Inl JSONDecodeError),
        dumps = (\<lambda>h v. Inl SerializeError), dump_file = (\<lambda>h v. ([], None))\<rparr>"
      "''[1, 2]''" "[PDict [(''tags'', PRef 1)], PList [PInt 1]]" "PRef 0" "''tags''"]
  by (simp add: alloc_def update_field_def truthy_def obj_at_def setitem_def)

text \<open>The number input: its range, and the value it shows.\<close>

lemma number_editor_int:
  "fits_c_int i \<Longrightarrow>
   number_editor (PInt i) =
     Inr \<lparr>minimum = - 999999, maximum = 999999, spin_value = max (- 999999) (min 999999 i)\<rparr>"
  by (simp add: number_editor_def py_int_def setValue_def setMinimum_def setMaximum_def
      setRange_def new_QSpinBox_def)

lemma number_editor_float:
  "fits_c_int (if 0 \<le> r then \<lfloor>r\<rfloor> else \<lceil>r\<rceil>) \<Longrightarrow>
   number_editor (PFloat r) =
     Inr \<lparr>minimum = - 999999, maximum = 999999,
          spin_value = max (- 999999) (min 999999 (if 0 \<le> r then \<lfloor>r\<rfloor> else \<lceil>r\<rceil>))\<rparr>"
  by (simp add: number_editor_def py_int_def setValue_def setMinimum_def setMaximum_def
      setRange_def new_QSpinBox_def)

lemma number_editor_overflow:
  "\<not> fits_c_int i \<Longrightarrow> number_editor (PInt i) = Inl OverflowError"
  by (simp add: number_editor_def py_int_def)

lemma number_editor_in_range:
  "number_editor v = Inr s \<Longrightarrow> - 999999 \<le> spin_value s \<and> spin_value s \<le> 999999"
  by (auto simp: number_editor_def setValue_def setMinimum_def setMaximum_def
      setRange_def new_QSpinBox_def split: sum.splits if_splits)

text \<open>
  C7. The property \<open>"opacity": 2.5\<close> is a \<open>float\<close>, yet its editor is the integer
  input showing 2, the value truncated toward zero; a change made in that input stores
  an \<open>int\<close>, here 3, in place of the \<open>float\<close>.
\<close>

theorem number_editor_truncates_float:
  "editor_for L [PDict [(''opacity'', PFloat (5 / 2))]] (PFloat (5 / 2)) =
     Inr (NumberEditor \<lparr>minimum = - 999999, maximum = 999999, spin_value = 2\<rparr>) \<and>
   on_edit L [PDict [(''opacity'', PFloat (5 / 2))]] (PRef 0) ''opacity'' (SpinChanged 3) =
     Inr ([PDict [(''opacity'', PInt 3)]], True)"
  by (simp add: editor_for_def is_list_def obj_at_def number_editor_float fits_c_int_def
      on_edit_def update_field_def truthy_def setitem_def)

section \<open>Properties of loading and saving\<close>

text \<open>
  C6. When the file cannot be read, or its text does not parse, \<open>load_file\<close> shows
  the error and changes nothing else: the document, the store and every other part of
  the state are as before.
\<close>

theorem load_file_failure_keeps_state:
  assumes "files st path = None \<or> (\<exists>text e. files st path = Some text \<and> loads L text = Inl e)"
  shows "\<exists>e. load_file L fuel path st = st\<lparr>errors_shown := errors_shown st @ [e]\<rparr>"
  using assms
  by (auto simp: load_file_def handled_def show_error_def)

theorem load_file_failure_keeps_state_witness:
  "\<exists>e. load_file
      \<lparr>loads = (\<lambda>t. if t = ''{}'' then Inr (JObj []) else Inl JSONDecodeError),
       dumps = (\<lambda>h v. Inl SerializeError), dump_file = (\<lambda>h v. ([], None))\<rparr>
      3 ''bad.json''
      \<lparr>store = [PDict [(''id'', PStr ''m'')]], json_data = PRef 0,
       current_file = Some ''ui.json'', modified = True, tree = [], widgets_list = [],
       widgets_items = [], raw_editor = ''x'', raw_tab_active = False,
       current_data = PNone, form_rows = [], errors_shown = [],
       files = (\<lambda>p. if p = ''bad.json'' then Some ''{id:'' else None),
       can_write = (\<lambda>p. True)\<rparr> =
    \<lparr>store = [PDict [(''id'', PStr ''m'')]], json_data = PRef 0,
       current_file = Some ''ui.json'', modified = True, tree = [], widgets_list = [],
       widgets_items = [], raw_editor = ''x'', raw_tab_active = False,
       current_data = PNone, form_rows = [], errors_shown = [e],
       files = (\<lambda>p. if p = ''bad.json'' then Some ''{id:'' else None),
       can_write = (\<lambda>p. True)\<rparr>"
  using load_file_failure_keeps_state [of
      "\<lparr>store = [PDict [(''id'', PStr ''m'')]], json_data = PRef 0,
       current_file = Some ''ui.json'', modified = True, tree = [], widgets_list = [],
       widgets_items = [], raw_editor = ''x'', raw_tab_active = False,
       current_data = PNone, form_rows = [], errors_shown = [],
       files = (\<lambda>p. if p = ''bad.json'' then Some ''{id:'' else None),
       can_write = (\<lambda>p. True)\<rparr>"
      "''bad.json''"
      "\<lparr>loads = (\<lambda>t. if t = ''{}'' then Inr (JObj []) else Inl JSONDecodeError),
       dumps = (\<lambda>h v. Inl SerializeError), dump_file = (\<lambda>h v. ([], None))\<rparr>"
      3]
  by simp


lemma save_file_as_invalid_raw_text:
  assumes "raw_tab_active st"
      and "loads L (raw_editor st) = Inl JSONDecodeError"
  shows "files (save_file_as L fuel chosen st) = files st \<and>
         json_data (save_file_as L fuel chosen st) = json_data st"
  using assms
  by (simp add: save_file_as_def save_current_def sync_from_raw_def then_do_def handled_def
      show_error_def split: option.splits)



section \<open>Properties of the tree view and of the selection of a leaf\<close>

lemma split_dot_no_dot: "CHR ''.'' \<notin> set s \<Longrightarrow> split_dot s = [s]"
  by (induction s) auto

lemma split_dot_segments: "w \<in> set (split_dot s) \<Longrightarrow> CHR ''.'' \<notin> set w"
proof (induction s arbitrary: w)
  case Nil
  then show ?case by simp
next
  case (Cons c cs)
  show ?case
  proof (cases "c = CHR ''.''")
    case True
    with Cons show ?thesis by auto
  next
    case False
    obtain u us where sp: "split_dot cs = u # us"
      using split_dot_nonempty [of cs] by (cases "split_dot cs") auto
    with Cons.prems False have "w = c # u \<or> w \<in> set us" by auto
    then show ?thesis
    proof
      assume "w = c # u"
      moreover have "CHR ''.'' \<notin> set u" using Cons.IH [of u] sp by simp
      ultimately show ?thesis using False by auto
    next
      assume "w \<in> set us"
      then show ?thesis using Cons.IH [of w] sp by simp
    qed
  qed
qed

lemma split_dot_with_dot: "CHR ''.'' \<in> set s \<Longrightarrow> \<exists>w u us. split_dot s = w # u # us"
proof (induction s)
  case Nil
  then show ?case by simp
next
  case (Cons c cs)
  obtain u us where sp: "split_dot cs = u # us"
    using split_dot_nonempty [of cs] by (cases "split_dot cs") auto
  show ?case
  proof (cases "c = CHR ''.''")
    case True
    with sp show ?thesis by simp
  next
    case False
    with Cons.prems have "CHR ''.'' \<in> set cs" by simp
    from Cons.IH [OF this] False show ?thesis by auto
  qed
qed

text \<open>
  \<open>update_field\<close> on an object with the single key \<open>k\<close>, for the field path \<open>k\<close>:
  it raises, or it replaces the value of that key and touches no other object.
\<close>

lemma update_field_wrapper:
  assumes a: "a < length h" and ha: "h ! a = PDict [(k, w)]"
  shows "(\<exists>e. update_field h (PRef a) k v = Inl e) \<or>
         update_field h (PRef a) k v = Inr (h[a := PDict [(k, v)]], True)"
proof (cases "CHR ''.'' \<in> set k")
  case False
  then have "split_dot k = [k]" by (rule split_dot_no_dot)
  then show ?thesis
    using a ha by (simp add: update_field_def truthy_def obj_at_def setitem_def)
next
  case True
  from split_dot_with_dot [OF this] obtain x u us where sp: "split_dot k = x # u # us"
    by blast
  then have "x \<in> set (split_dot k)" by simp
  then have "CHR ''.'' \<notin> set x" by (rule split_dot_segments)
  with True have "x \<noteq> k" by auto
  then have "getitem h (PRef a) x = Inl (KeyError x)"
    using a ha by (simp add: getitem_def obj_at_def)
  then have "update_field h (PRef a) k v = Inl (KeyError x)"
    using a ha sp by (simp add: update_field_def truthy_def obj_at_def)
  then show ?thesis by blast
qed

text \<open>Parsing only adds objects to the store.\<close>

lemma build_extends:
  "\<exists>ws. snd (build j h) = h @ ws"
  "\<exists>ws. snd (build_list js h) = h @ ws"
  "\<exists>ws. snd (build_members ms h) = h @ ws"
proof (induction j h and js h and ms h rule: build_build_list_build_members.induct)
  case (6 js h)
  then show ?case by (auto simp: alloc_def split: prod.splits)
next
  case (7 ms h)
  then show ?case by (auto simp: alloc_def split: prod.splits)
next
  case (9 j js h)
  obtain v h1 where b: "build j h = (v, h1)" by (cases "build j h")
  obtain vs h2 where bl: "build_list js h1 = (vs, h2)" by (cases "build_list js h1")
  from 9(1) b obtain ws where "h1 = h @ ws" by auto
  moreover from 9(2) [OF b [symmetric]] bl obtain ws' where "h2 = h1 @ ws'" by auto
  ultimately show ?case using b bl by simp
next
  case (11 m ms h)
  obtain v h1 where b: "build (snd m) h = (v, h1)" by (cases "build (snd m) h")
  obtain kvs h2 where bl: "build_members ms h1 = (kvs, h2)" by (cases "build_members ms h1")
  from 11(1) b obtain ws where "h1 = h @ ws" by auto
  moreover from 11(2) [OF b [symmetric]] bl obtain ws' where "h2 = h1 @ ws'" by auto
  ultimately show ?case using b bl by simp
qed simp_all

lemma build_keeps_old:
  assumes "build j h = (v, h1)"
  shows "length h \<le> length h1" and "b < length h \<Longrightarrow> h1 ! b = h ! b"
proof -
  from build_extends(1) [of j h] assms obtain ws where "h1 = h @ ws" by auto
  then show "length h \<le> length h1" and "b < length h \<Longrightarrow> h1 ! b = h ! b"
    by (simp_all add: nth_append)
qed

text \<open>Building the rows of the tree only adds objects to the store.\<close>

lemma add_tree_extends:
  "\<exists>ws. snd (fst (add_tree_items n h d)) = h @ ws"
  "\<exists>ws. snd (fst (add_tree_entries n h kvs)) = h @ ws"
proof (induction n h d and n h kvs rule: add_tree_items_add_tree_entries.induct)
  case (1 h d)
  then show ?case by simp
next
  case (2 n h d)
  then show ?case by (auto split: sum.splits)
next
  case (3 n h)
  then show ?case by simp
next
  case (4 n h kv rest)
  let ?first =
    "(if is_dict h (snd kv) then
        (case add_tree_items n h (snd kv) of
           ((cs, h1), r) \<Rightarrow> (([TreeItem (snd kv) cs], h1), r))
      else if is_dict_list h (snd kv) then
        (case elem_items h (list_elems h (snd kv)) of
           (cs, r) \<Rightarrow> (([TreeItem PNone cs], h), r))
      else
        (case alloc h (PDict [(fst kv, snd kv)]) of
           (w, h1) \<Rightarrow> (([TreeItem w []], h1), None)))"
  obtain its h1 r where f: "?first = ((its, h1), r)" by (metis surj_pair)
  have ext1: "\<exists>ws. h1 = h @ ws"
  proof (cases "is_dict h (snd kv)")
    case True
    with 4(1) f show ?thesis by (auto split: prod.splits)
  next
    case False
    with f show ?thesis by (auto simp: alloc_def split: prod.splits if_splits)
  qed
  show ?case
  proof (cases r)
    case (Some e)
    with f ext1 show ?thesis by simp
  next
    case None
    obtain its' h2 r' where g: "add_tree_entries n h1 rest = ((its', h2), r')"
      by (metis surj_pair)
    from 4(2) [OF f [symmetric] refl None] g obtain ws' where "h2 = h1 @ ws'" by auto
    with ext1 f None g show ?thesis by auto
  qed
qed

text \<open>
  The row of a leaf entry: a new object \<open>{key: value}\<close> is allocated for it, at an
  address that did not exist before, and attached to the row.
\<close>

lemma add_tree_entries_leaf:
  assumes "\<not> is_dict h v" and "\<not> is_dict_list h v"
  shows "\<exists>its h1 r.
           add_tree_entries n h ((k, v) # rest) =
             ((TreeItem (PRef (length h)) [] # its, h1), r) \<and>
           length h < length h1 \<and> take (length h) h1 = h \<and>
           h1 ! length h = PDict [(k, v)]"
proof -
  obtain its' h2 r' where g: "add_tree_entries n (h @ [PDict [(k, v)]]) rest = ((its', h2), r')"
    by (metis surj_pair)
  from add_tree_extends(2) [of n "h @ [PDict [(k, v)]]" rest] g
  obtain ws where h2: "h2 = h @ [PDict [(k, v)]] @ ws" by auto
  have "add_tree_entries n h ((k, v) # rest) = ((TreeItem (PRef (length h)) [] # its', h2), r')"
    using assms g by (simp add: alloc_def)
  moreover have "length h < length h2" "take (length h) h2 = h" "h2 ! length h = PDict [(k, v)]"
    using h2 by (simp_all add: nth_append)
  ultimately show ?thesis by blast
qed

text \<open>The form built for a single-key object whose value is not a \<open>dict\<close> has at most one row, with the key as its field path.\<close>

lemma add_editors_wrapper:
  assumes a: "a < length h" and ha: "h ! a = PDict [(k, v)]" and nd: "\<not> is_dict h v"
  shows "fst ` set (fst (add_editors L h (PRef a) [] 0)) \<subseteq> {k}"
  using assms
  by (auto simp: py_items_def obj_at_def split: sum.splits)

lemma only_changes_refl: "only_changes a st st"
  by (simp add: only_changes_def)

lemma only_changes_trans:
  "only_changes a st st1 \<Longrightarrow> only_changes a st1 st2 \<Longrightarrow> only_changes a st st2"
  by (auto simp: only_changes_def)

lemma on_edit_wrapper:
  assumes a: "a < length h" and ha: "h ! a = PDict [(k, w)]"
  shows "(\<exists>e. on_edit L h (PRef a) k ev = Inl e) \<or>
         (\<exists>h' c v. on_edit L h (PRef a) k ev = Inr (h', c) \<and> length h \<le> length h' \<and>
            h' ! a = PDict [(k, v)] \<and> (\<forall>b < length h. b \<noteq> a \<longrightarrow> h' ! b = h ! b)) \<or>
         on_edit L h (PRef a) k ev = Inr (h, False)"
proof (cases ev)
  case (ListTextChanged t)
  show ?thesis
  proof (cases "loads L t")
    case (Inl e)
    with ListTextChanged show ?thesis by (auto simp: on_edit_def update_list_def)
  next
    case (Inr j)
    obtain v h1 where b: "build j h = (v, h1)" by (cases "build j h")
    from build_keeps_old [OF b] a ha
    have a1: "a < length h1" and ha1: "h1 ! a = PDict [(k, w)]"
      and len: "length h \<le> length h1" and old: "\<And>b. b < length h \<Longrightarrow> h1 ! b = h ! b"
      by auto
    from update_field_wrapper [OF a1 ha1, of v]
    show ?thesis
    proof
      assume "\<exists>e. update_field h1 (PRef a) k v = Inl e"
      then obtain e where e: "update_field h1 (PRef a) k v = Inl e" by blast
      then have "is_PathError e" by (rule update_field_error_is_PathError)
      then have "e \<noteq> JSONDecodeError" by auto
      with e Inr b ListTextChanged show ?thesis by (simp add: on_edit_def update_list_def)
    next
      assume u: "update_field h1 (PRef a) k v = Inr (h1[a := PDict [(k, v)]], True)"
      then have "on_edit L h (PRef a) k ev = Inr (h1[a := PDict [(k, v)]], True)"
        using Inr b ListTextChanged by (simp add: on_edit_def update_list_def)
      moreover have "length h \<le> length (h1[a := PDict [(k, v)]])" using len by simp
      moreover have "(h1[a := PDict [(k, v)]]) ! a = PDict [(k, v)]" using a1 by simp
      moreover have "\<forall>b < length h. b \<noteq> a \<longrightarrow> (h1[a := PDict [(k, v)]]) ! b = h ! b"
        using old by simp
      ultimately show ?thesis by blast
    qed
  qed
next
  case (ChoiceChanged t)
  from update_field_wrapper [OF a ha, of "PBool (t = ''true'')"] a ChoiceChanged
  show ?thesis by (auto simp: on_edit_def)
next
  case (SpinChanged i)
  from update_field_wrapper [OF a ha, of "PInt i"] a SpinChanged
  show ?thesis by (auto simp: on_edit_def)
next
  case (TextChanged t)
  from update_field_wrapper [OF a ha, of "PStr t"] a TextChanged
  show ?thesis by (auto simp: on_edit_def)
qed

lemma form_edit_wrapper:
  assumes sel: "wrapper_selected a k st"
  shows "wrapper_selected a k (fst (form_edit L k ev st)) \<and>
         only_changes a st (fst (form_edit L k ev st))"
proof -
  from sel obtain w where cur: "current_data st = PRef a" and a: "a < length (store st)"
    and ha: "store st ! a = PDict [(k, w)]" and rows: "fst ` set (form_rows st) \<subseteq> {k}"
    by (auto simp: wrapper_selected_def)
  from on_edit_wrapper [OF a ha, of L ev]
  consider (err) e where "on_edit L (store st) (PRef a) k ev = Inl e"
    | (upd) h' c v where "on_edit L (store st) (PRef a) k ev = Inr (h', c)"
        "length (store st) \<le> length h'" "h' ! a = PDict [(k, v)]"
        "\<forall>b < length (store st). b \<noteq> a \<longrightarrow> h' ! b = store st ! b"
    | (same) "on_edit L (store st) (PRef a) k ev = Inr (store st, False)"
    by blast
  then show ?thesis
  proof cases
    case err
    with cur have "fst (form_edit L k ev st) = st" by (simp add: form_edit_def)
    with sel show ?thesis by (simp add: only_changes_refl)
  next
    case upd
    with cur have "fst (form_edit L k ev st) = st\<lparr>store := h', modified := (modified st \<or> c)\<rparr>"
      by (simp add: form_edit_def)
    with upd cur a rows show ?thesis
      by (auto simp: wrapper_selected_def only_changes_def)
  next
    case same
    with cur have "fst (form_edit L k ev st) = st\<lparr>store := store st, modified := modified st\<rparr>"
      by (simp add: form_edit_def)
    with sel show ?thesis by (auto simp: wrapper_selected_def only_changes_def)
  qed
qed

lemma row_edits_wrapper:
  "wrapper_selected a k st \<Longrightarrow> only_changes a st (row_edits L evs st)"
proof (induction evs arbitrary: st)
  case Nil
  then show ?case by (simp add: only_changes_refl)
next
  case (Cons iev evs)
  show ?case
  proof (cases "fst iev < length (form_rows st)")
    case False
    with Cons show ?thesis by simp
  next
    case True
    then have "form_rows st ! fst iev \<in> set (form_rows st)" by simp
    then have "fst (form_rows st ! fst iev) \<in> fst ` set (form_rows st)" by (rule imageI)
    with Cons.prems have p: "fst (form_rows st ! fst iev) = k"
      by (auto simp: wrapper_selected_def)
    let ?st1 = "fst (form_edit L k (snd iev) st)"
    from form_edit_wrapper [OF Cons.prems, of L "snd iev"]
    have s1: "wrapper_selected a k ?st1" and c1: "only_changes a st ?st1" by simp_all
    from Cons.IH [OF s1] have "only_changes a ?st1 (row_edits L evs ?st1)" .
    with c1 have "only_changes a st (row_edits L evs ?st1)" by (rule only_changes_trans)
    with True p show ?thesis by simp
  qed
qed

lemma tree_item_clicked_wrapper:
  assumes a: "a < length (store st)" and ha: "store st ! a = PDict [(k, v)]"
    and nd: "\<not> is_dict (store st) v"
  shows "wrapper_selected a k (fst (tree_item_clicked L (TreeItem (PRef a) []) st)) \<and>
         store (fst (tree_item_clicked L (TreeItem (PRef a) []) st)) = store st \<and>
         json_data (fst (tree_item_clicked L (TreeItem (PRef a) []) st)) = json_data st"
proof -
  have tr: "truthy (store st) (PRef a)" using a ha by (simp add: truthy_def obj_at_def)
  obtain rows r where ae: "add_editors L (store st) (PRef a) [] 0 = (rows, r)"
    by (metis surj_pair)
  from add_editors_wrapper [OF a ha nd, of L] ae have "fst ` set rows \<subseteq> {k}" by simp
  moreover have "fst (tree_item_clicked L (TreeItem (PRef a) []) st) =
      st\<lparr>current_data := PRef a, form_rows := rows\<rparr>"
    using tr ae by (simp add: tree_item_clicked_def load_data_def)
  ultimately show ?thesis using a ha by (auto simp: wrapper_selected_def)
qed

text \<open>
  C10. For a leaf entry \<open>(k, v)\<close> of the document (\<open>v\<close> neither a \<open>dict\<close> nor a list
  starting with a \<open>dict\<close>), the row built for it carries a new object \<open>{k: v}\<close>,
  allocated at an address that no object of the document has, and building the rows
  leaves the earlier objects as they were. Whenever that object is then selected with a
  click on the row, any sequence of changes made in the rows of the form leaves the
  document reference and every object other than the \<open>{k: v}\<close> object unchanged.
\<close>

theorem leaf_selection_edits_frame:
  assumes leaf: "\<not> is_dict h v" "\<not> is_dict_list h v"
  shows "(\<exists>its h1 r.
            add_tree_entries n h ((k, v) # rest) =
              ((TreeItem (PRef (length h)) [] # its, h1), r) \<and>
            length h < length h1 \<and> take (length h) h1 = h \<and>
            h1 ! length h = PDict [(k, v)]) \<and>
         (\<forall>(st::window) evs.
            length h < length (store st) \<and> store st ! length h = PDict [(k, v)] \<and>
            \<not> is_dict (store st) v \<longrightarrow>
            json_data (row_edits L evs (fst (tree_item_clicked L (TreeItem (PRef (length h)) []) st)))
              = json_data st \<and>
            length (store st) \<le>
              length (store (row_edits L evs (fst (tree_item_clicked L (TreeItem (PRef (length h)) []) st)))) \<and>
            (\<forall>b < length (store st). b \<noteq> length h \<longrightarrow>
               store (row_edits L evs (fst (tree_item_clicked L (TreeItem (PRef (length h)) []) st))) ! b
                 = store st ! b))"
proof (rule conjI)
  show "\<exists>its h1 r.
          add_tree_entries n h ((k, v) # rest) =
            ((TreeItem (PRef (length h)) [] # its, h1), r) \<and>
          length h < length h1 \<and> take (length h) h1 = h \<and>
          h1 ! length h = PDict [(k, v)]"
    using leaf by (rule add_tree_entries_leaf)
next
  show "\<forall>(st::window) evs.
            length h < length (store st) \<and> store st ! length h = PDict [(k, v)] \<and>
            \<not> is_dict (store st) v \<longrightarrow>
            json_data (row_edits L evs (fst (tree_item_clicked L (TreeItem (PRef (length h)) []) st)))
              = json_data st \<and>
            length (store st) \<le>
              length (store (row_edits L evs (fst (tree_item_clicked L (TreeItem (PRef (length h)) []) st)))) \<and>
            (\<forall>b < length (store st). b \<noteq> length h \<longrightarrow>
               store (row_edits L evs (fst (tree_item_clicked L (TreeItem (PRef (length h)) []) st))) ! b
                 = store st ! b)"
  proof (intro allI impI)
    fix st :: window and evs
    assume pre: "length h < length (store st) \<and> store st ! length h = PDict [(k, v)] \<and>
              \<not> is_dict (store st) v"
    let ?st1 = "fst (tree_item_clicked L (TreeItem (PRef (length h)) []) st)"
    from pre tree_item_clicked_wrapper [of "length h" st k v L]
    have sel: "wrapper_selected (length h) k ?st1" and s1: "store ?st1 = store st"
      and j1: "json_data ?st1 = json_data st"
      by simp_all
    from row_edits_wrapper [OF sel, of L evs]
    have oc: "only_changes (length h) ?st1 (row_edits L evs ?st1)" .
    from oc s1 j1
    show "json_data (row_edits L evs ?st1) = json_data st \<and>
          length (store st) \<le> length (store (row_edits L evs ?st1)) \<and>
          (\<forall>b < length (store st). b \<noteq> length h \<longrightarrow>
             store (row_edits L evs ?st1) ! b = store st ! b)"
      by (simp add: only_changes_def)
  qed
qed

theorem leaf_selection_edits_frame_witness:
  "\<not> is_dict [PDict [(''id'', PStr ''m''), (''title'', PStr ''Home'')]] (PStr ''Home'') \<and>
   \<not> is_dict_list [PDict [(''id'', PStr ''m''), (''title'', PStr ''Home'')]] (PStr ''Home'') \<and>
   (\<exists>its h1 r.
      add_tree_entries 2 [PDict [(''id'', PStr ''m''), (''title'', PStr ''Home'')]]
        [(''title'', PStr ''Home'')] = ((TreeItem (PRef 1) [] # its, h1), r) \<and>
      h1 ! 1 = PDict [(''title'', PStr ''Home'')]) \<and>
   store (row_edits
      \<lparr>loads = (\<lambda>t. Inl JSONDecodeError), dumps = (\<lambda>h v. Inl SerializeError),
       dump_file = (\<lambda>h v. ([], None))\<rparr>
      [(0, TextChanged ''Start'')]
      (fst (tree_item_clicked
         \<lparr>loads = (\<lambda>t. Inl JSONDecodeError), dumps = (\<lambda>h v. Inl SerializeError),
          dump_file = (\<lambda>h v. ([], None))\<rparr>
         (TreeItem (PRef 1) [])
         \<lparr>store = [PDict [(''id'', PStr ''m''), (''title'', PStr ''Home'')],
                   PDict [(''title'', PStr ''Home'')]],
          json_data = PRef 0, current_file = None, modified = False,
          tree = [TreeItem PNone [TreeItem (PRef 1) []]], widgets_list = [],
          widgets_items = [], raw_editor = [], raw_tab_active = False,
          current_data = PNone, form_rows = [], errors_shown = [],
          files = (\<lambda>p. None), can_write = (\<lambda>p. True)\<rparr>))) ! 0 =
     PDict [(''id'', PStr ''m''), (''title'', PStr ''Home'')]"
proof -
  let ?h = "[PDict [(''id'', PStr ''m''), (''title'', PStr ''Home'')]]"
  let ?L = "\<lparr>loads = (\<lambda>t. Inl JSONDecodeError), dumps = (\<lambda>h v. Inl SerializeError),
       dump_file = (\<lambda>h v. ([], None))\<rparr>"
  let ?st = "\<lparr>store = [PDict [(''id'', PStr ''m''), (''title'', PStr ''Home'')],
                   PDict [(''title'', PStr ''Home'')]],
          json_data = PRef 0, current_file = None, modified = False,
          tree = [TreeItem PNone [TreeItem (PRef 1) []]], widgets_list = [],
          widgets_items = [], raw_editor = [], raw_tab_active = False,
          current_data = PNone, form_rows = [], errors_shown = [],
          files = (\<lambda>p. None), can_write = (\<lambda>p. True)\<rparr>"
  have l1: "\<not> is_dict ?h (PStr ''Home'')" by (simp add: is_dict_def obj_at_def)
  have l2: "\<not> is_dict_list ?h (PStr ''Home'')"
    by (simp add: is_dict_list_def list_elems_def obj_at_def)
  note T = leaf_selection_edits_frame [OF l1 l2, of 2 "''title''" "[]" ?L]
  from T have A: "\<exists>its h1 r.
      add_tree_entries 2 ?h [(''title'', PStr ''Home'')] = ((TreeItem (PRef 1) [] # its, h1), r) \<and>
      h1 ! 1 = PDict [(''title'', PStr ''Home'')]"
    by auto
  from T have B: "\<forall>(st::window) evs.
      length ?h < length (store st) \<and> store st ! length ?h = PDict [(''title'', PStr ''Home'')] \<and>
      \<not> is_dict (store st) (PStr ''Home'') \<longrightarrow>
      (\<forall>b < length (store st). b \<noteq> length ?h \<longrightarrow>
         store (row_edits ?L evs (fst (tree_item_clicked ?L (TreeItem (PRef (length ?h)) []) st))) ! b
           = store st ! b)"
    by blast
  have pre: "length ?h < length (store ?st) \<and>
      store ?st ! length ?h = PDict [(''title'', PStr ''Home'')] \<and>
      \<not> is_dict (store ?st) (PStr ''Home'')"
    by (simp add: is_dict_def obj_at_def)
  from B [rule_format, OF pre, of 0 "[(0, TextChanged ''Start'')]"]
  have C: "store (row_edits ?L [(0, TextChanged ''Start'')]
      (fst (tree_item_clicked ?L (TreeItem (PRef 1) []) ?st))) ! 0 = store ?st ! 0"
    by simp
  from l1 l2 A C show ?thesis by simp
qed

text \<open>The same selection and edit, computed: only the \<open>{key: value}\<close> object changes.\<close>

lemma leaf_edit_example:
  "store (row_edits
      \<lparr>loads = (\<lambda>t. Inl JSONDecodeError), dumps = (\<lambda>h v. Inl SerializeError),
       dump_file = (\<lambda>h v. ([], None))\<rparr>
      [(0, TextChanged ''Start'')]
      (fst (tree_item_clicked
         \<lparr>loads = (\<lambda>t. Inl JSONDecodeError), dumps = (\<lambda>h v. Inl SerializeError),
          dump_file = (\<lambda>h v. ([], None))\<rparr>
         (TreeItem (PRef 1) [])
         \<lparr>store = [PDict [(''id'', PStr ''m''), (''title'', PStr ''Home'')],
                   PDict [(''title'', PStr ''Home'')]],
          json_data = PRef 0, current_file = None, modified = False,
          tree = [TreeItem PNone [TreeItem (PRef 1) []]], widgets_list = [],
          widgets_items = [], raw_editor = [], raw_tab_active = False,
          current_data = PNone, form_rows = [], errors_shown = [],
          files = (\<lambda>p. None), can_write = (\<lambda>p. True)\<rparr>))) =
     [PDict [(''id'', PStr ''m''), (''title'', PStr ''Home'')],
      PDict [(''title'', PStr ''Start'')]]"
  by (simp add: tree_item_clicked_def load_data_def truthy_def obj_at_def py_items_def
      is_dict_def editor_for_def is_list_def form_edit_def on_edit_def update_field_def
      setitem_def)

section \<open>Documents as the parser builds them\<close>

lemma getitem_downward:
  assumes dw: "downward h" and g: "getitem h d k = Inr d'"
  shows "\<exists>a. d = PRef a \<and> a < length h \<and> (\<forall>c. d' = PRef c \<longrightarrow> c < a)"
proof -
  from g obtain kvs where ob: "obj_at h d = Some (PDict kvs)" and m: "map_of kvs k = Some d'"
    by (auto simp: getitem_def split: option.splits pyobj.splits)
  from obj_at_Some_ref [OF ob] obtain a where d: "d = PRef a" and a: "a < length h"
    and ha: "h ! a = PDict kvs" by blast
  from m have "(k, d') \<in> set kvs" by (rule map_of_SomeD)
  then have "\<forall>c. d' = PRef c \<longrightarrow> c \<in> refs_of (h ! a)"
    using ha by (auto simp: refs_of_def)
  with dw a have "\<forall>c. d' = PRef c \<longrightarrow> c < a" by (auto simp: downward_def)
  with d a show ?thesis by blast
qed

lemma walk_downward:
  assumes dw: "downward h"
  shows "walk h (PRef a) ks = Inr (PRef c) \<Longrightarrow> c \<le> a \<and> (ks \<noteq> [] \<longrightarrow> c < a)"
proof (induction ks arbitrary: a)
  case Nil
  then show ?case by simp
next
  case (Cons k ks)
  from Cons.prems obtain d' where g: "getitem h (PRef a) k = Inr d'"
    and w: "walk h d' ks = Inr (PRef c)"
    by (auto split: sum.splits)
  from getitem_downward [OF dw g] have lt: "\<forall>c. d' = PRef c \<longrightarrow> c < a" by simp
  show ?case
  proof (cases ks)
    case Nil
    with w lt show ?thesis by simp
  next
    case (Cons k' ks')
    with w obtain d'' where "getitem h d' k' = Inr d''" by (auto split: sum.splits)
    from getitem_downward [OF dw this] obtain a' where d': "d' = PRef a'" by blast
    with lt have "a' < a" by simp
    moreover from Cons.IH [of a'] w d' have "c \<le> a'" by simp
    ultimately show ?thesis by simp
  qed
qed

text \<open>In a downward store no object is its own ancestor on a path.\<close>

lemma walk_not_visited:
  assumes dw: "downward h"
  shows "walk h d ks = Inr p \<Longrightarrow> p \<notin> set (visited h d ks)"
proof (induction ks arbitrary: d)
  case Nil
  then show ?case by simp
next
  case (Cons k ks)
  from Cons.prems obtain d' where g: "getitem h d k = Inr d'" and w: "walk h d' ks = Inr p"
    by (auto split: sum.splits)
  from getitem_downward [OF dw g] obtain a where d: "d = PRef a" by blast
  have "p \<noteq> d"
  proof
    assume "p = d"
    with Cons.prems d have "walk h (PRef a) (k # ks) = Inr (PRef a)" by simp
    from walk_downward [OF dw this] show False by simp
  qed
  moreover from Cons.IH [OF w] have "p \<notin> set (visited h d' ks)" .
  ultimately show ?case using g by simp
qed

lemma dict_set_values:
  "(k', x) \<in> set (dict_set k v d) \<Longrightarrow> x = v \<or> (\<exists>k''. (k'', x) \<in> set d)"
  by (induction d) (auto split: if_splits)

lemma dict_of_members_values_aux:
  "(k', x) \<in> set (fold (\<lambda>kv d. dict_set (fst kv) (snd kv) d) kvs d0) \<Longrightarrow>
     (\<exists>k''. (k'', x) \<in> set kvs) \<or> (\<exists>k''. (k'', x) \<in> set d0)"
proof (induction kvs arbitrary: d0)
  case Nil
  then show ?case by auto
next
  case (Cons kv kvs)
  from Cons.prems have "(k', x) \<in> set (fold (\<lambda>kv d. dict_set (fst kv) (snd kv) d) kvs
      (dict_set (fst kv) (snd kv) d0))" by simp
  from Cons.IH [OF this] show ?case
  proof
    assume "\<exists>k''. (k'', x) \<in> set kvs"
    then show ?thesis by auto
  next
    assume "\<exists>k''. (k'', x) \<in> set (dict_set (fst kv) (snd kv) d0)"
    then obtain k'' where "(k'', x) \<in> set (dict_set (fst kv) (snd kv) d0)" by blast
    from dict_set_values [OF this] show ?thesis
    proof
      assume "x = snd kv"
      then have "(fst kv, x) \<in> set (kv # kvs)" by simp
      then show ?thesis by blast
    next
      assume "\<exists>k''. (k'', x) \<in> set d0"
      then show ?thesis by blast
    qed
  qed
qed

lemma dict_of_members_values:
  "(k', x) \<in> set (dict_of_members kvs) \<Longrightarrow> \<exists>k''. (k'', x) \<in> set kvs"
  using dict_of_members_values_aux [of k' x kvs "[]"] by (simp add: dict_of_members_def)

lemma downward_alloc:
  assumes "downward h" and "\<forall>c \<in> refs_of ob. c < length h"
  shows "downward (h @ [ob])"
  using assms by (auto simp: downward_def nth_append less_Suc_eq)

text \<open>The parser keeps a store downward, and what it returns refers into the store.\<close>

lemma build_downward:
  "downward h \<Longrightarrow> downward (snd (build j h)) \<and>
     (\<forall>c. fst (build j h) = PRef c \<longrightarrow> c < length (snd (build j h)))"
  "downward h \<Longrightarrow> downward (snd (build_list js h)) \<and>
     (\<forall>c. PRef c \<in> set (fst (build_list js h)) \<longrightarrow> c < length (snd (build_list js h)))"
  "downward h \<Longrightarrow> downward (snd (build_members ms h)) \<and>
     (\<forall>k c. (k, PRef c) \<in> set (fst (build_members ms h)) \<longrightarrow> c < length (snd (build_members ms h)))"
proof (induction j h and js h and ms h rule: build_build_list_build_members.induct)
  case (6 js h)
  obtain vs h' where b: "build_list js h = (vs, h')" by (cases "build_list js h")
  from 6 b have dw: "downward h'" and v: "\<forall>c. PRef c \<in> set vs \<longrightarrow> c < length h'" by auto
  from v have "\<forall>c \<in> refs_of (PList vs). c < length h'" by (simp add: refs_of_def)
  with dw have "downward (h' @ [PList vs])" by (rule downward_alloc)
  with b show ?case by (simp add: alloc_def)
next
  case (7 ms h)
  obtain kvs h' where b: "build_members ms h = (kvs, h')" by (cases "build_members ms h")
  from 7 b have dw: "downward h'" and v: "\<forall>k c. (k, PRef c) \<in> set kvs \<longrightarrow> c < length h'"
    by auto
  have "\<forall>c \<in> refs_of (PDict (dict_of_members kvs)). c < length h'"
  proof
    fix c
    assume "c \<in> refs_of (PDict (dict_of_members kvs))"
    then obtain k where "(k, PRef c) \<in> set (dict_of_members kvs)" by (auto simp: refs_of_def)
    from dict_of_members_values [OF this] v show "c < length h'" by blast
  qed
  with dw have "downward (h' @ [PDict (dict_of_members kvs)])" by (rule downward_alloc)
  with b show ?case by (simp add: alloc_def)
next
  case (9 j js h)
  obtain v h1 where b: "build j h = (v, h1)" by (cases "build j h")
  obtain vs h2 where bl: "build_list js h1 = (vs, h2)" by (cases "build_list js h1")
  from 9(1) [OF 9(3)] b have dw1: "downward h1" and v1: "\<forall>c. v = PRef c \<longrightarrow> c < length h1"
    by auto
  from 9(2) [OF b [symmetric] dw1] bl
  have dw2: "downward h2" and v2: "\<forall>c. PRef c \<in> set vs \<longrightarrow> c < length h2" by auto
  from build_extends(2) [of js h1] bl have "length h1 \<le> length h2" by auto
  with v1 have "\<forall>c. v = PRef c \<longrightarrow> c < length h2" by auto
  with dw2 v2 b bl show ?case by auto
next
  case (11 m ms h)
  obtain v h1 where b: "build (snd m) h = (v, h1)" by (cases "build (snd m) h")
  obtain kvs h2 where bl: "build_members ms h1 = (kvs, h2)" by (cases "build_members ms h1")
  from 11(1) [OF 11(3)] b have dw1: "downward h1" and v1: "\<forall>c. v = PRef c \<longrightarrow> c < length h1"
    by auto
  from 11(2) [OF b [symmetric] dw1] bl
  have dw2: "downward h2" and v2: "\<forall>k c. (k, PRef c) \<in> set kvs \<longrightarrow> c < length h2" by auto
  from build_extends(3) [of ms h1] bl have "length h1 \<le> length h2" by auto
  with v1 have "\<forall>c. v = PRef c \<longrightarrow> c < length h2" by auto
  with dw2 v2 b bl show ?case by auto
qed simp_all

lemma downward_empty: "downward []"
  by (simp add: downward_def)

text \<open>
  For a document as the parser has just built it, no object reached by a path is one of
  its own ancestors on that path.
\<close>

lemma loaded_document_no_ancestor:
  assumes "build j [] = (doc, h)" and "walk h doc ks = Inr p"
  shows "p \<notin> set (visited h doc ks)"
proof -
  from build_downward(1) [OF downward_empty, of j] assms(1) have "downward h" by simp
  then show ?thesis using assms(2) by (rule walk_not_visited)
qed

text \<open>
  So on a document just loaded, \<open>update_field\<close> stores the value whenever the
  document is not empty and the segments before the last lead to a \<open>dict\<close>.
\<close>

lemma update_field_on_loaded_document:
  assumes "build j [] = (doc, h)"
      and "truthy h doc"
      and "walk h doc (butlast (split_dot path)) = Inr p"
      and "is_dict h p"
  shows "\<exists>h'. update_field h doc path v = Inr (h', True) \<and> walk h' doc (split_dot path) = Inr v"
  using assms(2,3,4) loaded_document_no_ancestor [OF assms(1,3)]
  by (rule update_field_stores)

end
